(* ===== verification/Prelude.thy ===== *)
theory Prelude
  imports Main "HOL-Library.Word"
begin

text \<open>
  Shared vocabulary of the storage-engine development: the three compile-time
  constants of \<^verbatim>\<open>include/StorageEngine.hpp\<close>, the types that name page identifiers
  and frame indices, the collection \<open>engine_simps\<close> that the component theories
  fill with their unfolding facts, and generic lemmas on lists and maps that the
  buffer manager's recency list and page table need.
\<close>

section \<open>Configuration constants\<close>

text \<open>\<^verbatim>\<open>PAGE_SIZE\<close>, \<^verbatim>\<open>BUFFER_CAPACITY\<close> and \<^verbatim>\<open>MAX_KEYS\<close> (StorageEngine.hpp, lines 15--17).
  The proofs about the cache never unfold \<open>BUFFER_CAPACITY\<close> except where the
  statement is about the reference configuration.\<close>

definition PAGE_SIZE :: nat where
  "PAGE_SIZE = 4096"

definition BUFFER_CAPACITY :: nat where
  "BUFFER_CAPACITY = 3"

definition MAX_KEYS :: nat where
  "MAX_KEYS = 3"

section \<open>Names of the model's types\<close>

text \<open>Page identifiers are C++ \<^verbatim>\<open>int\<close>s; \<open>-1\<close> is the "no page" sentinel of an empty
  frame and of the root's parent. Frame indices are positions in the pool vector.\<close>

type_synonym pid = int
type_synonym frame_idx = nat

named_theorems engine_simps "unfolding facts of the engine's operations"

section \<open>Lists used as the recency list\<close>

lemma distinct_removeAll_set [simp]:
  "distinct xs \<Longrightarrow> distinct (removeAll x xs)"
  by (induction xs) auto

lemma removeAll_not_in [simp]:
  "x \<notin> set xs \<Longrightarrow> removeAll x xs = xs"
  by (induction xs) auto

lemma distinct_length_removeAll:
  "distinct xs \<Longrightarrow> x \<in> set xs \<Longrightarrow> length (removeAll x xs) = length xs - 1"
proof -
  assume "distinct xs" and "x \<in> set xs"
  then have "count_list xs x = 1" by (induction xs) auto
  then show ?thesis by (simp add: length_removeAll)
qed

lemma distinct_set_butlast:
  "distinct xs \<Longrightarrow> xs \<noteq> [] \<Longrightarrow> set (butlast xs) = set xs - {last xs}"
proof (induction xs rule: rev_induct)
  case Nil
  then show ?case by simp
next
  case (snoc x xs)
  then show ?case by auto
qed

lemma rotate_last_distinct:
  "distinct xs \<Longrightarrow> xs \<noteq> [] \<Longrightarrow>
   distinct (last xs # butlast xs) \<and> set (last xs # butlast xs) = set xs \<and>
   length (last xs # butlast xs) = length xs"
  by (cases xs rule: rev_exhaust) auto

lemma set_upt_Suc_length:
  "set xs = {0..<length xs} \<Longrightarrow> set (length xs # xs) = {0..<Suc (length xs)}"
  by auto

lemma set_update2_subset:
  "set (xs[i := a, j := b]) \<subseteq> insert b (insert a (set xs))"
  by (meson dual_order.trans insert_mono set_update_subset_insert)

lemma card_set_distinct_le:
  "distinct xs \<Longrightarrow> length xs \<le> n \<Longrightarrow> card (set xs) \<le> n"
  by (simp add: distinct_card)

section \<open>Maps used as the page table\<close>

lemma map_upd_Some_iff:
  "(m(k \<mapsto> v)) k' = Some w \<longleftrightarrow> (k' = k \<and> w = v) \<or> (k' \<noteq> k \<and> m k' = Some w)"
  by auto

lemma map_del_Some_iff:
  "(m(k := None)) k' = Some w \<longleftrightarrow> k' \<noteq> k \<and> m k' = Some w"
  by auto

section \<open>Insertion into a sorted list split in two\<close>

text \<open>Where \<open>insort\<close> puts a key into a sorted list cut in two: into the left
  part when the key is below the right part's head, into the right part when it
  is at least every key of the left part.\<close>

lemma insort_append_left:
  fixes k :: "'a::linorder"
  assumes "sorted (xs @ ys)" and "ys \<noteq> []" and "k < hd ys"
  shows "insort k (xs @ ys) = insort k xs @ ys"
  using assms
proof (induction xs)
  case Nil
  then show ?case by (cases ys) auto
next
  case (Cons x xs)
  then show ?case by auto
qed

lemma insort_append_right:
  fixes k :: "'a::linorder"
  assumes "sorted (xs @ ys)" and "\<forall>x \<in> set xs. x \<le> k"
  shows "insort k (xs @ ys) = xs @ insort k ys"
  using assms
proof (induction xs)
  case Nil
  then show ?case by simp
next
  case (Cons x xs)
  show ?case
  proof (cases "k \<le> x")
    case True
    with Cons.prems have xk: "x = k" by auto
    have "\<forall>y \<in> set (xs @ ys). k \<le> y" using Cons.prems(1) xk by auto
    then have ins: "insort k (xs @ ys) = k # xs @ ys" by (cases "xs @ ys") auto
    have "insort k ((x # xs) @ ys) = k # x # xs @ ys" using True by simp
    also have "\<dots> = x # insort k (xs @ ys)" using ins xk by simp
    also have "\<dots> = (x # xs) @ insort k ys" using Cons.IH Cons.prems by simp
    finally show ?thesis .
  next
    case False
    with Cons show ?thesis by auto
  qed
qed

end
