(* ===== verification/Node.thy ===== *)
theory Node
  imports Prelude
begin

text \<open>
  The node view of a page: \<^verbatim>\<open>struct BPlusNode\<close> (StorageEngine.hpp, lines 112--119),
  which the tree code overlays on the first bytes of a 4096-byte page buffer by a
  pointer cast. A page's bytes are modelled by this view: every byte the program
  ever stores is either a \<^verbatim>\<open>memset\<close> zero or a write to a field of the struct, so
  the view determines the page. \<open>zero_node\<close> is the view of an all-zero page (the
  initial pool frames, \<^verbatim>\<open>allocatePage\<close>'s \<^verbatim>\<open>memset\<close>, the hole a write past the end
  of the file leaves). The fixed-size arrays are lists of length \<open>MAX_KEYS\<close> and
  \<open>MAX_KEYS + 1\<close>; \<open>node_wf\<close> states the shape and ordering facts the tree keeps.
\<close>

record BPlusNode =
  isLeaf :: bool
  numKeys :: int
  parentPage :: pid
  keys :: "int list"
  children :: "pid list"
  nextLeaf :: pid

definition zero_node :: BPlusNode where
  "zero_node =
     \<lparr>isLeaf = False, numKeys = 0, parentPage = 0, keys = replicate MAX_KEYS 0,
      children = replicate (Suc MAX_KEYS) 0, nextLeaf = 0\<rparr>"

text \<open>The keys a node holds: the first \<open>numKeys\<close> slots of its key array.\<close>

definition node_keys :: "BPlusNode \<Rightarrow> int list" where
  "node_keys n = take (nat (numKeys n)) (keys n)"

text \<open>Well-formedness of one node image: the arrays have their C++ lengths, the key
  count is within the array, and the stored keys ascend. An internal node has at
  most one key (the reference only ever builds the root of the first split).\<close>

definition node_wf :: "BPlusNode \<Rightarrow> bool" where
  "node_wf n \<longleftrightarrow>
     length (keys n) = MAX_KEYS \<and> length (children n) = Suc MAX_KEYS \<and>
     0 \<le> numKeys n \<and> numKeys n \<le> int MAX_KEYS \<and> sorted (node_keys n) \<and>
     (\<not> isLeaf n \<longrightarrow> numKeys n \<le> 1)"

lemma zero_node_wf [simp]: "node_wf zero_node"
  by (simp add: node_wf_def zero_node_def node_keys_def MAX_KEYS_def)

lemma zero_node_fields [simp]:
  "isLeaf zero_node = False" "numKeys zero_node = 0"
  "keys zero_node = replicate MAX_KEYS 0" "children zero_node = replicate (Suc MAX_KEYS) 0"
  by (simp_all add: zero_node_def)

lemma zero_node_eq:
  "zero_node = \<lparr>isLeaf = False, numKeys = 0, parentPage = 0, keys = [0, 0, 0],
     children = [0, 0, 0, 0], nextLeaf = 0\<rparr>"
  by (simp add: zero_node_def MAX_KEYS_def eval_nat_numeral)

end
