(* ===== verification/Storage.thy ===== *)
theory Storage
  imports Node
begin

text \<open>
  The disk layer, \<^verbatim>\<open>class StorageManager\<close> (StorageEngine.hpp, lines 21--45). Its
  state is the \<^verbatim>\<open>fstream\<close>: the file's contents, a sequence of 4096-byte blocks
  (block \<open>b\<close> is bytes \<open>[b * 4096, (b + 1) * 4096)\<close>), and the stream's failure
  state. The C++ standard fixes what the stream does and the model follows it:
  \<^item> a read that reaches the end of the file stores the bytes it got (none, since the
    file is a whole number of blocks), sets \<^verbatim>\<open>failbit\<close> and leaves the buffer as it
    was;
  \<^item> once \<^verbatim>\<open>failbit\<close> is set, \<^verbatim>\<open>seekg\<close>, \<^verbatim>\<open>seekp\<close>, \<^verbatim>\<open>read\<close> and \<^verbatim>\<open>write\<close> do nothing (their
    sentry fails) and nothing ever clears the bit again;
  \<^item> a seek to a negative offset fails and sets \<^verbatim>\<open>failbit\<close>;
  \<^item> a write past the end of the file extends it, the gap reading as zero bytes.
  The offset \<^verbatim>\<open>pageID * PAGE_SIZE\<close> is a product of two \<^verbatim>\<open>int\<close>s: it is computed
  at 32 bits with two's-complement wrap-around (\<open>page_offset\<close>).
\<close>

record StorageManager =
  blocks :: "BPlusNode list"
  failed :: bool

text \<open>The constructor opens the file with \<^verbatim>\<open>ios::trunc\<close>: the engine always starts
  from an empty file and a good stream (both branches of lines 27--32 end so).\<close>

definition StorageManager_init :: StorageManager where
  "StorageManager_init = \<lparr>blocks = [], failed = False\<rparr>"

definition page_offset :: "pid \<Rightarrow> int" where
  "page_offset p = sint (word_of_int p * word_of_int (int PAGE_SIZE) :: 32 word)"

text \<open>Writing block \<open>b\<close>: in place, or past the end with a zero-filled hole.\<close>

definition put_block :: "nat \<Rightarrow> BPlusNode \<Rightarrow> BPlusNode list \<Rightarrow> BPlusNode list" where
  "put_block b n f =
     (if b < length f then f[b := n] else f @ replicate (b - length f) zero_node @ [n])"

definition writeDisk :: "pid \<Rightarrow> BPlusNode \<Rightarrow> StorageManager \<Rightarrow> StorageManager" where
  "writeDisk p n s =
     (let off = page_offset p in
      if failed s \<or> off < 0 then s\<lparr>failed := True\<rparr>
      else s\<lparr>blocks := put_block (nat (off div int PAGE_SIZE)) n (blocks s)\<rparr>)"

text \<open>\<^verbatim>\<open>readDisk\<close> returns the new contents of the destination buffer \<open>buf\<close>.\<close>

definition readDisk :: "pid \<Rightarrow> BPlusNode \<Rightarrow> StorageManager \<Rightarrow> BPlusNode \<times> StorageManager" where
  "readDisk p buf s =
     (let off = page_offset p in
      if failed s \<or> off < 0 then (buf, s\<lparr>failed := True\<rparr>)
      else (let b = nat (off div int PAGE_SIZE) in
            if b < length (blocks s) then (blocks s ! b, s) else (buf, s\<lparr>failed := True\<rparr>)))"

section \<open>The page offset at 32 bits\<close>

lemma page_offset_in_range:
  assumes "0 \<le> p" and "p < 2 ^ 19"
  shows "page_offset p = p * 4096"
proof -
  have "p * 4096 < 2 ^ 31" using assms(2) by simp
  then have "signed_take_bit 31 (p * 4096) = p * 4096"
    using assms(1) by (simp add: signed_take_bit_int_eq_self)
  moreover have "word_of_int p * word_of_int (int PAGE_SIZE) = (word_of_int (p * 4096) :: 32 word)"
    by (simp only: PAGE_SIZE_def wi_hom_mult of_nat_numeral)
  ultimately show ?thesis
    by (simp only: page_offset_def sint_sbintrunc') simp
qed

lemma page_block_in_range:
  "0 \<le> p \<Longrightarrow> p < 2 ^ 19 \<Longrightarrow> nat (page_offset p div int PAGE_SIZE) = nat p"
  by (simp add: page_offset_in_range PAGE_SIZE_def)


section \<open>Blocks of the file\<close>

lemma length_put_block [simp]:
  "length (put_block b n f) = max (length f) (Suc b)"
  by (simp add: put_block_def)

lemma nth_put_block_same [simp]:
  "put_block b n f ! b = n"
  by (simp add: put_block_def nth_append)

lemma nth_put_block_other:
  "c \<noteq> b \<Longrightarrow> c < length f \<Longrightarrow> put_block b n f ! c = f ! c"
  by (simp add: put_block_def nth_append)

lemmas disk_defs [engine_simps] = writeDisk_def readDisk_def Let_def

section \<open>Properties of the disk layer\<close>

lemma writeDisk_good:
  "\<not> failed s \<Longrightarrow> 0 \<le> p \<Longrightarrow> p < 2 ^ 19 \<Longrightarrow>
   writeDisk p n s = s\<lparr>blocks := put_block (nat p) n (blocks s)\<rparr>"
  by (simp add: writeDisk_def page_offset_in_range PAGE_SIZE_def)

lemma readDisk_good:
  "\<not> failed s \<Longrightarrow> 0 \<le> p \<Longrightarrow> p < 2 ^ 19 \<Longrightarrow>
   readDisk p buf s =
     (if nat p < length (blocks s) then (blocks s ! nat p, s) else (buf, s\<lparr>failed := True\<rparr>))"
  by (simp add: readDisk_def page_offset_in_range PAGE_SIZE_def Let_def)

text \<open>C7. Page round trip: on a good stream, writing page \<open>p\<close> and reading it back
  returns exactly the node image written, and the read leaves the stream as the
  write left it. The hypotheses are the stream being good and the byte offset of
  \<open>p\<close> being representable in a 32-bit \<^verbatim>\<open>int\<close>.\<close>

theorem page_roundtrip:
  assumes "\<not> failed s" and "0 \<le> p" and "p < 2 ^ 19"
  shows "readDisk p buf (writeDisk p n s) = (n, writeDisk p n s)"
  using assms by (simp add: writeDisk_good readDisk_good)

lemma page_roundtrip_witness:
  "readDisk 2 zero_node (writeDisk 2 (zero_node\<lparr>isLeaf := True\<rparr>) StorageManager_init)
     = (zero_node\<lparr>isLeaf := True\<rparr>, writeDisk 2 (zero_node\<lparr>isLeaf := True\<rparr>) StorageManager_init)"
  using page_roundtrip [of StorageManager_init 2 zero_node "zero_node\<lparr>isLeaf := True\<rparr>"]
  by (simp add: StorageManager_init_def)

text \<open>Writing one page leaves every other page of the file as it was.\<close>

lemma write_other_page:
  assumes "\<not> failed s" and "0 \<le> p" and "p < 2 ^ 19" and "0 \<le> q" and "q < 2 ^ 19"
    and "p \<noteq> q" and "nat q < length (blocks s)"
  shows "fst (readDisk q buf (writeDisk p n s)) = fst (readDisk q buf s)"
  using assms by (simp add: writeDisk_good readDisk_good nth_put_block_other)

text \<open>C8. Reading a page the file does not yet hold does not zero-fill the buffer:
  the buffer keeps its old contents and the stream fails.\<close>

theorem read_past_end_fails:
  assumes "\<not> failed s" and "0 \<le> p" and "p < 2 ^ 19" and "length (blocks s) \<le> nat p"
  shows "readDisk p buf s = (buf, s\<lparr>failed := True\<rparr>)"
  using assms by (simp add: readDisk_good)

lemma read_past_end_fails_witness:
  "readDisk 0 (zero_node\<lparr>numKeys := 2\<rparr>) StorageManager_init
     = (zero_node\<lparr>numKeys := 2\<rparr>, StorageManager_init\<lparr>failed := True\<rparr>)"
  using read_past_end_fails [of StorageManager_init 0 "zero_node\<lparr>numKeys := 2\<rparr>"]
  by (simp add: StorageManager_init_def)

lemma page_offset_eq: "page_offset p = take_bit 32 (p * 4096 + 2 ^ 31) - 2 ^ 31"
proof -
  have "word_of_int p * word_of_int (int PAGE_SIZE) = (word_of_int (p * 4096) :: 32 word)"
    by (simp only: PAGE_SIZE_def wi_hom_mult of_nat_numeral)
  then have "page_offset p = signed_take_bit 31 (p * 4096)"
    by (simp only: page_offset_def sint_sbintrunc') simp
  then show ?thesis by (simp only: signed_take_bit_eq_take_bit_shift) simp
qed

lemma page_offset_period: "page_offset (p + 2 ^ 20) = page_offset p"
proof -
  have e: "(p + 2 ^ 20) * 4096 + 2 ^ 31 = (p * 4096 + 2 ^ 31) + 2 ^ 32" by simp
  have "take_bit 32 ((p + 2 ^ 20) * 4096 + 2 ^ 31) = take_bit 32 (p * 4096 + 2 ^ 31)"
    unfolding e take_bit_eq_mod by (rule mod_add_self2)
  then show ?thesis by (simp only: page_offset_eq)
qed

lemma page_offset_neg:
  assumes "2 ^ 19 \<le> p" and "p < 2 ^ 20"
  shows "page_offset p = p * 4096 - 2 ^ 32"
proof -
  let ?x = "p * 4096 + 2 ^ 31 - 2 ^ 32"
  have e: "p * 4096 + 2 ^ 31 = ?x + 2 ^ 32" by simp
  have r: "0 \<le> ?x" "?x < 2 ^ 32" using assms by simp_all
  have "take_bit 32 (p * 4096 + 2 ^ 31) = take_bit 32 (?x + 2 ^ 32)" using e by (rule arg_cong)
  also have "\<dots> = ?x" unfolding take_bit_eq_mod mod_add_self2 using r by (rule mod_pos_pos_trivial)
  finally have "take_bit 32 (p * 4096 + 2 ^ 31) = ?x" .
  then show ?thesis by (simp only: page_offset_eq)
qed
text \<open>C9. The byte offset \<^verbatim>\<open>pageID * PAGE_SIZE\<close> overflows a 32-bit \<^verbatim>\<open>int\<close>
  from page \<open>2\<^sup>1\<^sup>9\<close> on. Every page id from \<open>2\<^sup>1\<^sup>9\<close> to \<open>2\<^sup>2\<^sup>0 - 1\<close> gets the negative
  offset \<open>p * 4096 - 2\<^sup>3\<^sup>2\<close>, so the seek fails and the page can be neither written
  nor read, on any stream; and page \<open>p + 2\<^sup>2\<^sup>0\<close> gets the offset of page \<open>p\<close>, so the
  two pages share one block of the file.\<close>

theorem page_offset_wraps:
  "(2 ^ 19 \<le> p \<and> p < 2 ^ 20 \<longrightarrow>
      page_offset p = p * 4096 - 2 ^ 32 \<and> writeDisk p n s = s\<lparr>failed := True\<rparr> \<and>
      readDisk p buf s = (buf, s\<lparr>failed := True\<rparr>)) \<and>
   page_offset (p + 2 ^ 20) = page_offset p"
proof (intro conjI impI)
  assume "2 ^ 19 \<le> p \<and> p < 2 ^ 20"
  then have o: "page_offset p = p * 4096 - 2 ^ 32" by (simp add: page_offset_neg)
  moreover have "page_offset p < 0" using o \<open>2 ^ 19 \<le> p \<and> p < 2 ^ 20\<close> by simp
  ultimately show "page_offset p = p * 4096 - 2 ^ 32" "writeDisk p n s = s\<lparr>failed := True\<rparr>"
    "readDisk p buf s = (buf, s\<lparr>failed := True\<rparr>)"
    by (simp_all add: writeDisk_def readDisk_def Let_def)
qed (rule page_offset_period)

lemma page_offset_wraps_witness:
  "page_offset (2 ^ 19) = - (2 ^ 31) \<and> readDisk (2 ^ 19) zero_node StorageManager_init = (zero_node, StorageManager_init\<lparr>failed := True\<rparr>)
   \<and> page_offset (2 ^ 19 + 2 ^ 20) = page_offset (2 ^ 19)"
  using page_offset_wraps [of "2 ^ 19" zero_node StorageManager_init zero_node] by simp

end
