(* ===== verification/Buffer.thy ===== *)
theory Buffer
  imports Storage
begin

text \<open>
  The cache layer, \<^verbatim>\<open>struct Frame\<close> and \<^verbatim>\<open>class BufferManager\<close> (StorageEngine.hpp,
  lines 49--108). The manager holds the storage manager it was built on (the
  C++ member \<^verbatim>\<open>sm\<close> is a reference, and every cache operation may do disk I/O
  through it), the pool of \<open>BUFFER_CAPACITY\<close> frames, the page table (an
  \<^verbatim>\<open>unordered_map<int,int>\<close>, here a map from page id to frame index), the recency
  list (\<^verbatim>\<open>list<int>\<close>, most recent first) and the allocation counter.
  \<open>fetchPage\<close> returns the index of the frame whose buffer the C++ returns a pointer
  to: a later write through that pointer is a write to this frame
  (\<open>write_frame\<close>), whichever page the frame holds by then.
\<close>

record Frame =
  pageID :: pid
  dirty :: bool
  data :: BPlusNode

definition empty_frame :: Frame where
  "empty_frame = \<lparr>pageID = -1, dirty = False, data = zero_node\<rparr>"

record BufferManager =
  sm :: StorageManager
  pool :: "Frame list"
  pageTable :: "pid \<rightharpoonup> frame_idx"
  lru :: "frame_idx list"
  nextPageID :: pid

text \<open>The constructor: \<^verbatim>\<open>pool(BUFFER_CAPACITY)\<close> value-initialises every frame
  (page id \<open>-1\<close>, clean, zero bytes).\<close>

definition BufferManager_init :: "StorageManager \<Rightarrow> BufferManager" where
  "BufferManager_init s =
     \<lparr>sm = s, pool = replicate BUFFER_CAPACITY empty_frame, pageTable = Map.empty,
      lru = [], nextPageID = 0\<rparr>"

text \<open>\<^verbatim>\<open>touch\<close>: \<^verbatim>\<open>lru.remove(idx)\<close> removes every occurrence, then \<^verbatim>\<open>push_front\<close>.\<close>

definition touch :: "frame_idx \<Rightarrow> BufferManager \<Rightarrow> BufferManager" where
  "touch i b = b\<lparr>lru := i # removeAll i (lru b)\<rparr>"

text \<open>\<^verbatim>\<open>evict\<close>: the next unused frame while the recency list is shorter than the
  capacity; otherwise the back of the list is the victim, written to disk if dirty,
  dropped from the page table and from the list.\<close>

definition evict :: "BufferManager \<Rightarrow> frame_idx \<times> BufferManager" where
  "evict b =
     (if length (lru b) < BUFFER_CAPACITY then (length (lru b), b)
      else (let idx = last (lru b); fr = pool b ! idx;
                s' = (if dirty fr then writeDisk (pageID fr) (data fr) (sm b) else sm b)
            in (idx, b\<lparr>sm := s', pageTable := (pageTable b)(pageID fr := None),
                        lru := butlast (lru b)\<rparr>)))"

definition fetchPage :: "pid \<Rightarrow> BufferManager \<Rightarrow> frame_idx \<times> BufferManager" where
  "fetchPage p b =
     (case pageTable b p of
        Some i \<Rightarrow> (i, touch i b)
      | None \<Rightarrow>
          (case evict b of (i, b1) \<Rightarrow>
            (case readDisk p (data (pool b1 ! i)) (sm b1) of (buf, s') \<Rightarrow>
              (i, touch i (b1\<lparr>sm := s',
                   pool := (pool b1)[i := (pool b1 ! i)\<lparr>data := buf, pageID := p, dirty := False\<rparr>],
                   pageTable := (pageTable b1)(p \<mapsto> i)\<rparr>)))))"

definition markDirty :: "pid \<Rightarrow> BufferManager \<Rightarrow> BufferManager" where
  "markDirty p b =
     (case pageTable b p of
        Some i \<Rightarrow> b\<lparr>pool := (pool b)[i := (pool b ! i)\<lparr>dirty := True\<rparr>]\<rparr>
      | None \<Rightarrow> b)"

text \<open>A store through a pointer \<^verbatim>\<open>fetchPage\<close> returned: it changes the frame's bytes
  and nothing else (in particular not the dirty flag).\<close>

definition write_frame :: "frame_idx \<Rightarrow> (BPlusNode \<Rightarrow> BPlusNode) \<Rightarrow> BufferManager \<Rightarrow> BufferManager" where
  "write_frame i f b = b\<lparr>pool := (pool b)[i := (pool b ! i)\<lparr>data := f (data (pool b ! i))\<rparr>]\<rparr>"

definition allocatePage :: "BufferManager \<Rightarrow> pid \<times> BufferManager" where
  "allocatePage b =
     (let p = nextPageID b in
      case fetchPage p (b\<lparr>nextPageID := p + 1\<rparr>) of (i, b2) \<Rightarrow>
        (p, markDirty p (write_frame i (\<lambda>_. zero_node) b2)))"

section \<open>An abstract LRU cache\<close>

text \<open>The abstract view of the cache is the list of resident page ids, most recently
  used first (\<open>resident_order\<close>). \<open>lru_fetch\<close> is the textbook LRU policy on
  that list: a page moves to the front; a new page enters at the front and, when the
  cache is full, pushes the last page out. \<open>lru_seq\<close> and \<open>fetch_seq\<close> run a
  sequence of fetches on the two levels.\<close>

definition resident_order :: "BufferManager \<Rightarrow> pid list" where
  "resident_order b = map (\<lambda>i. pageID (pool b ! i)) (lru b)"

definition lru_fetch :: "pid \<Rightarrow> pid list \<Rightarrow> pid list" where
  "lru_fetch p xs =
     p # removeAll p (if p \<in> set xs \<or> length xs < BUFFER_CAPACITY then xs else butlast xs)"

fun lru_seq :: "pid list \<Rightarrow> pid list \<Rightarrow> pid list" where
  "lru_seq [] xs = xs"
| "lru_seq (p # ps) xs = lru_seq ps (lru_fetch p xs)"

fun fetch_seq :: "pid list \<Rightarrow> BufferManager \<Rightarrow> BufferManager" where
  "fetch_seq [] b = b"
| "fetch_seq (p # ps) b = fetch_seq ps (snd (fetchPage p b))"

section \<open>The invariant of the manager\<close>

text \<open>The recency list is a permutation of the frames in use, which are the first
  ones of the pool; the page table maps exactly the page ids those frames hold to
  their index.\<close>

definition lru_shape :: "frame_idx list \<Rightarrow> bool" where
  "lru_shape xs \<longleftrightarrow> distinct xs \<and> set xs = {0..<length xs} \<and> length xs \<le> BUFFER_CAPACITY"

definition frames_ok :: "BufferManager \<Rightarrow> bool" where
  "frames_ok b \<longleftrightarrow> length (pool b) = BUFFER_CAPACITY \<and>
     (\<forall>p i. pageTable b p = Some i \<longleftrightarrow> i \<in> set (lru b) \<and> pageID (pool b ! i) = p)"

definition bm_inv :: "BufferManager \<Rightarrow> bool" where
  "bm_inv b \<longleftrightarrow> lru_shape (lru b) \<and> frames_ok b"

lemmas bm_defs [engine_simps] = touch_def evict_def fetchPage_def markDirty_def write_frame_def
  allocatePage_def

lemma BUFFER_CAPACITY_pos [simp]: "0 < BUFFER_CAPACITY" and BUFFER_CAPACITY_neq0 [simp]: "BUFFER_CAPACITY \<noteq> 0"
  by (simp_all add: BUFFER_CAPACITY_def)

lemma lru_shape_nth_lt:
  "lru_shape xs \<Longrightarrow> i \<in> set xs \<Longrightarrow> i < BUFFER_CAPACITY"
  by (auto simp: lru_shape_def)

lemma lru_shape_touch:
  "lru_shape xs \<Longrightarrow> i \<in> set xs \<Longrightarrow> lru_shape (i # removeAll i xs)"
  by (auto simp: lru_shape_def distinct_length_removeAll)

lemma frames_ok_unique:
  assumes "frames_ok b" and "i \<in> set (lru b)" and "j \<in> set (lru b)"
    and "pageID (pool b ! i) = pageID (pool b ! j)"
  shows "i = j"
proof -
  from assms have "pageTable b (pageID (pool b ! j)) = Some i"
    and "pageTable b (pageID (pool b ! j)) = Some j"
    by (auto simp: frames_ok_def)
  then show ?thesis by simp
qed

lemma evict_inv:
  assumes inv: "bm_inv b" and ev: "evict b = (i, b1)"
  shows "lru_shape (i # lru b1) \<and> frames_ok b1 \<and> pool b1 = pool b \<and>
         nextPageID b1 = nextPageID b \<and> (\<forall>q j. pageTable b1 q = Some j \<longrightarrow> pageTable b q = Some j)"
proof (cases "length (lru b) < BUFFER_CAPACITY")
  case True
  with ev have "i = length (lru b)" and "b1 = b" by (auto simp: evict_def)
  with True inv show ?thesis
    by (auto simp: bm_inv_def lru_shape_def)
next
  case False
  let ?xs = "lru b" and ?v = "pageID (pool b ! last (lru b))"
  from inv have shape: "lru_shape ?xs" and fr: "frames_ok b" by (simp_all add: bm_inv_def)
  from False shape BUFFER_CAPACITY_pos have ne: "?xs \<noteq> []" by (auto simp: lru_shape_def)
  from False ev have i: "i = last ?xs" and lb1: "lru b1 = butlast ?xs"
    and pt1: "pageTable b1 = (pageTable b)(?v := None)" and pool1: "pool b1 = pool b"
    and n1: "nextPageID b1 = nextPageID b"
    by (auto simp: evict_def Let_def)
  have set1: "set (butlast ?xs) = set ?xs - {last ?xs}"
    using shape ne by (simp add: lru_shape_def distinct_set_butlast)
  have "lru_shape (i # lru b1)"
    using shape ne rotate_last_distinct [of ?xs] by (simp add: i lb1 lru_shape_def)
  moreover have "frames_ok b1"
    unfolding frames_ok_def
  proof (intro conjI allI)
    show "length (pool b1) = BUFFER_CAPACITY" using fr pool1 by (simp add: frames_ok_def)
  next
    fix p j
    have lastin: "last ?xs \<in> set ?xs" using ne by simp
    show "pageTable b1 p = Some j \<longleftrightarrow> j \<in> set (lru b1) \<and> pageID (pool b1 ! j) = p"
      using fr frames_ok_unique [OF fr _ lastin] lastin
      by (auto simp: pt1 lb1 set1 pool1 frames_ok_def)
  qed
  ultimately show ?thesis using pool1 n1 pt1 by auto
qed

lemma install_inv:
  assumes shape: "lru_shape (i # lru b1)" and fr: "frames_ok b1" and miss: "pageTable b1 p = None"
  shows "bm_inv (touch i (b1\<lparr>sm := s',
           pool := (pool b1)[i := (pool b1 ! i)\<lparr>data := buf, pageID := p, dirty := False\<rparr>],
           pageTable := (pageTable b1)(p \<mapsto> i)\<rparr>))"
proof -
  have notin: "i \<notin> set (lru b1)" using shape by (simp add: lru_shape_def)
  have ilt: "i < length (pool b1)"
    using shape fr lru_shape_nth_lt [OF shape] by (simp add: frames_ok_def)
  have "lru_shape (i # removeAll i (lru b1))" using shape notin by simp
  moreover have "((pageTable b1)(p \<mapsto> i)) q = Some j \<longleftrightarrow>
      j \<in> set (i # removeAll i (lru b1)) \<and>
      pageID (((pool b1)[i := (pool b1 ! i)\<lparr>data := buf, pageID := p, dirty := False\<rparr>]) ! j) = q"
    for q j
  proof -
    have iff: "pageTable b1 q' = Some j' \<longleftrightarrow> j' \<in> set (lru b1) \<and> pageID (pool b1 ! j') = q'"
      for q' j' using fr by (simp add: frames_ok_def)
    show ?thesis
    proof (cases "j = i")
      case True
      then show ?thesis using notin ilt by (simp add: iff)
    next
      case False
      have "j \<in> set (lru b1) \<Longrightarrow> pageID (pool b1 ! j) \<noteq> p"
        using miss iff [of "pageID (pool b1 ! j)" j] by auto
      then show ?thesis using False by (auto simp: iff)
    qed
  qed
  ultimately show ?thesis using fr
    by (simp add: bm_inv_def frames_ok_def touch_def del: fun_upd_apply)
qed

lemma bm_inv_same_pageIDs:
  assumes "bm_inv b" and "length ps = length (pool b)"
    and "\<forall>j < length ps. pageID (ps ! j) = pageID (pool b ! j)"
  shows "bm_inv (b\<lparr>pool := ps\<rparr>)"
proof -
  have same: "pageID (ps ! i) = pageID (pool b ! i)" if "i \<in> set (lru b)" for i
    using assms lru_shape_nth_lt [OF _ that] by (simp add: bm_inv_def frames_ok_def)
  have "frames_ok (b\<lparr>pool := ps\<rparr>)"
    using assms(1,2) same unfolding bm_inv_def frames_ok_def by (simp, metis)
  then show ?thesis using assms(1) by (simp add: bm_inv_def)
qed

lemma bm_inv_frame_update:
  "bm_inv b \<Longrightarrow> pageID fr = pageID (pool b ! i) \<Longrightarrow> bm_inv (b\<lparr>pool := (pool b)[i := fr]\<rparr>)"
proof (rule bm_inv_same_pageIDs)
  fix j assume "bm_inv b" and "pageID fr = pageID (pool b ! i)"
  then show "\<forall>j < length ((pool b)[i := fr]). pageID ((pool b)[i := fr] ! j) = pageID (pool b ! j)"
    by (metis length_list_update nth_list_update_eq nth_list_update_neq)
qed simp_all

lemma markDirty_inv: "bm_inv b \<Longrightarrow> bm_inv (markDirty p b)"
  by (auto simp: markDirty_def intro: bm_inv_frame_update split: option.split)

lemma write_frame_inv: "bm_inv b \<Longrightarrow> bm_inv (write_frame i f b)"
  unfolding write_frame_def by (rule bm_inv_frame_update) simp_all

lemma fetchPage_inv:
  assumes inv: "bm_inv b" and fp: "fetchPage p b = (i, b')"
  shows "bm_inv b'"
proof (cases "pageTable b p")
  case (Some j)
  with inv have "j \<in> set (lru b)" by (auto simp: bm_inv_def frames_ok_def)
  moreover from Some fp have "i = j" and "b' = touch j b" by (auto simp: fetchPage_def)
  ultimately show ?thesis using inv
    by (auto simp: bm_inv_def touch_def frames_ok_def lru_shape_touch)
next
  case None
  obtain k b1 where ev: "evict b = (k, b1)" by (cases "evict b")
  obtain buf s' where rd: "readDisk p (data (pool b1 ! k)) (sm b1) = (buf, s')"
    by (cases "readDisk p (data (pool b1 ! k)) (sm b1)")
  from evict_inv [OF inv ev] have shape: "lru_shape (k # lru b1)" and fr: "frames_ok b1"
    and sub: "\<forall>q j. pageTable b1 q = Some j \<longrightarrow> pageTable b q = Some j" by auto
  from sub None have miss: "pageTable b1 p = None" by (cases "pageTable b1 p") auto
  from None fp ev rd have "b' = touch k (b1\<lparr>sm := s',
           pool := (pool b1)[k := (pool b1 ! k)\<lparr>data := buf, pageID := p, dirty := False\<rparr>],
           pageTable := (pageTable b1)(p \<mapsto> k)\<rparr>)"
    by (auto simp: fetchPage_def)
  with install_inv [OF shape fr miss] show ?thesis by simp
qed

lemma bm_inv_nextPageID [simp]: "bm_inv (b\<lparr>nextPageID := n\<rparr>) = bm_inv b"
  by (simp add: bm_inv_def frames_ok_def)

lemma allocatePage_parts:
  assumes "allocatePage b = (p, b')"
  shows "\<exists>n i b2. p = nextPageID b \<and> fetchPage p (b\<lparr>nextPageID := n\<rparr>) = (i, b2) \<and>
           b' = markDirty p (write_frame i (\<lambda>_. zero_node) b2)"
  using assms by (auto simp: allocatePage_def Let_def split: prod.splits)

lemma allocatePage_inv:
  assumes inv: "bm_inv b" and al: "allocatePage b = (p, b')"
  shows "bm_inv b'"
proof -
  obtain n i b2 where fp: "fetchPage p (b\<lparr>nextPageID := n\<rparr>) = (i, b2)"
    and b': "b' = markDirty p (write_frame i (\<lambda>_. zero_node) b2)"
    using allocatePage_parts [OF al] by blast
  have "bm_inv b2" using fetchPage_inv [OF _ fp] inv by simp
  then show ?thesis using b' by (simp add: markDirty_inv write_frame_inv)
qed

lemma BufferManager_init_inv: "bm_inv (BufferManager_init s)"
  by (simp add: BufferManager_init_def bm_inv_def lru_shape_def frames_ok_def)

text \<open>C10. Every cache operation the tree uses keeps the manager's invariant:
  \<open>fetchPage\<close>, on a hit and on a miss, with or without an eviction.\<close>

theorem fetchPage_preserves_inv:
  assumes "bm_inv b" and "fetchPage p b = (i, b')"
  shows "bm_inv b'"
  using assms by (rule fetchPage_inv)

lemma fetchPage_preserves_inv_witness:
  "bm_inv (snd (fetchPage 7 (BufferManager_init StorageManager_init)))"
  using fetchPage_preserves_inv [OF BufferManager_init_inv, of 7 _
          "fst (fetchPage 7 (BufferManager_init StorageManager_init))"
          "snd (fetchPage 7 (BufferManager_init StorageManager_init))"]
  by simp

lemma fetchPage_installs:
  assumes fp: "fetchPage p b = (i, b')"
  shows "pageTable b' p = Some i \<and> lru b' \<noteq> [] \<and> hd (lru b') = i \<and> nextPageID b' = nextPageID b"
proof (cases "pageTable b p")
  case (Some j)
  with fp show ?thesis by (auto simp: fetchPage_def touch_def)
next
  case None
  obtain k b1 where ev: "evict b = (k, b1)" by (cases "evict b")
  obtain buf s' where rd: "readDisk p (data (pool b1 ! k)) (sm b1) = (buf, s')"
    by (cases "readDisk p (data (pool b1 ! k)) (sm b1)")
  have "nextPageID b1 = nextPageID b" using ev by (auto simp: evict_def Let_def split: if_splits)
  with None fp ev rd show ?thesis by (auto simp: fetchPage_def touch_def)
qed

text \<open>C11. \<^verbatim>\<open>allocatePage\<close> hands out the next page id, advances the counter, and
  leaves the new page resident in the most recently used frame, zero-filled and
  dirty.\<close>

theorem allocatePage_fresh_page:
  assumes inv: "bm_inv b" and al: "allocatePage b = (p, b')"
  shows "p = nextPageID b \<and> nextPageID b' = p + 1 \<and>
    (\<exists>i. pageTable b' p = Some i \<and> hd (lru b') = i \<and> data (pool b' ! i) = zero_node \<and> dirty (pool b' ! i))"
proof -
  obtain i b2 where fp: "fetchPage (nextPageID b) (b\<lparr>nextPageID := nextPageID b + 1\<rparr>) = (i, b2)"
    by (cases "fetchPage (nextPageID b) (b\<lparr>nextPageID := nextPageID b + 1\<rparr>)")
  have ins: "pageTable b2 (nextPageID b) = Some i \<and> lru b2 \<noteq> [] \<and> hd (lru b2) = i \<and>
             nextPageID b2 = nextPageID b + 1"
    using fetchPage_installs [OF fp] by simp
  have "bm_inv b2" using fetchPage_inv [OF _ fp] inv by simp
  then have ilt: "i < length (pool b2)"
    using ins lru_shape_nth_lt [of "lru b2" i] by (auto simp: bm_inv_def frames_ok_def)
  have p: "p = nextPageID b" and b': "b' = markDirty p (write_frame i (\<lambda>_. zero_node) b2)"
    using al fp by (auto simp: allocatePage_def Let_def)
  show ?thesis using ins ilt by (simp add: p b' markDirty_def write_frame_def)
qed

lemma allocatePage_fresh_page_witness:
  "fst (allocatePage (BufferManager_init StorageManager_init)) = 0 \<and>
   nextPageID (snd (allocatePage (BufferManager_init StorageManager_init))) = 1 \<and>
   (\<exists>i. pageTable (snd (allocatePage (BufferManager_init StorageManager_init))) 0 = Some i \<and>
        data (pool (snd (allocatePage (BufferManager_init StorageManager_init))) ! i) = zero_node)"
  using allocatePage_fresh_page [OF BufferManager_init_inv, of StorageManager_init
          "fst (allocatePage (BufferManager_init StorageManager_init))"
          "snd (allocatePage (BufferManager_init StorageManager_init))"]
  by (auto simp: BufferManager_init_def)

lemma evict_lru_pool:
  "lru (snd (evict b)) = (if length (lru b) < BUFFER_CAPACITY then lru b else butlast (lru b)) \<and>
   pool (snd (evict b)) = pool b"
  by (simp add: evict_def Let_def)

lemma frames_ok_iff:
  "frames_ok b \<Longrightarrow> pageTable b p = Some i \<longleftrightarrow> i \<in> set (lru b) \<and> pageID (pool b ! i) = p"
  by (simp add: frames_ok_def)

lemma miss_not_resident:
  assumes "bm_inv b" and "pageTable b p = None"
  shows "p \<notin> set (resident_order b)"
proof
  assume "p \<in> set (resident_order b)"
  then obtain i where "i \<in> set (lru b)" and "pageID (pool b ! i) = p"
    by (auto simp: resident_order_def)
  with assms frames_ok_iff [of b p i] show False by (simp add: bm_inv_def)
qed

lemma fetchPage_resident_order:
  assumes inv: "bm_inv b"
  shows "resident_order (snd (fetchPage p b)) = lru_fetch p (resident_order b)"
proof (cases "pageTable b p")
  case (Some i)
  from inv have fr: "frames_ok b" by (simp add: bm_inv_def)
  with Some have i: "i \<in> set (lru b)" "pageID (pool b ! i) = p" by (auto simp: frames_ok_def)
  have inj: "inj_on (\<lambda>i. pageID (pool b ! i)) (insert i (set (lru b)))"
    using frames_ok_unique [OF fr] i(1) by (auto intro: inj_onI)
  have "p \<in> set (resident_order b)" using i by (auto simp: resident_order_def)
  then show ?thesis
    using Some i map_removeAll_inj_on [OF inj]
    by (simp add: fetchPage_def touch_def resident_order_def lru_fetch_def)
next
  case None
  obtain k b1 where ev: "evict b = (k, b1)" by (cases "evict b")
  obtain buf s' where rd: "readDisk p (data (pool b1 ! k)) (sm b1) = (buf, s')"
    by (cases "readDisk p (data (pool b1 ! k)) (sm b1)")
  from evict_inv [OF inv ev] have shape: "lru_shape (k # lru b1)" and pool1: "pool b1 = pool b"
    by auto
  have notin: "k \<notin> set (lru b1)" using shape by (simp add: lru_shape_def)
  have lru1: "lru b1 = (if length (lru b) < BUFFER_CAPACITY then lru b else butlast (lru b))"
    using evict_lru_pool [of b] ev by simp
  have pnot: "p \<notin> set (resident_order b)" using miss_not_resident [OF inv None] .
  let ?pool' = "(pool b1)[k := (pool b1 ! k)\<lparr>data := buf, pageID := p, dirty := False\<rparr>]"
  have same: "map (\<lambda>i. pageID (?pool' ! i)) (lru b1) = map (\<lambda>i. pageID (pool b ! i)) (lru b1)"
  proof (rule map_cong)
    fix x assume "x \<in> set (lru b1)"
    with notin have "k \<noteq> x" by auto
    then show "pageID (?pool' ! x) = pageID (pool b ! x)" by (simp add: pool1)
  qed simp
  have k: "k < length (pool b1)"
    using shape inv lru_shape_nth_lt [OF shape] pool1 by (simp add: bm_inv_def frames_ok_def)
  have nb: "p \<notin> set (butlast (resident_order b))" using pnot by (auto dest: in_set_butlastD)
  have "resident_order (snd (fetchPage p b)) = p # map (\<lambda>i. pageID (pool b ! i)) (lru b1)"
    using None ev rd notin same k by (simp add: fetchPage_def touch_def resident_order_def)
  also have "\<dots> = lru_fetch p (resident_order b)"
    using pnot lru1 removeAll_not_in [OF nb] by (auto simp: lru_fetch_def resident_order_def map_butlast dest: in_set_butlastD)
  finally show ?thesis .
qed

text \<open>C12. \<open>fetchPage\<close> implements the abstract LRU cache: on every state of the
  invariant, the resident pages after a fetch, in recency order, are what
  \<open>lru_fetch\<close> computes from those before.\<close>

theorem fetchPage_implements_lru:
  assumes "bm_inv b"
  shows "resident_order (snd (fetchPage p b)) = lru_fetch p (resident_order b)"
  using assms by (rule fetchPage_resident_order)

lemma fetchPage_implements_lru_witness:
  "resident_order (snd (fetchPage 9 (BufferManager_init StorageManager_init))) = [9]"
  using fetchPage_implements_lru [OF BufferManager_init_inv, of 9 StorageManager_init]
  by (simp add: resident_order_def BufferManager_init_def lru_fetch_def)

lemma fetch_seq_refines:
  "bm_inv b \<Longrightarrow> resident_order (fetch_seq ps b) = lru_seq ps (resident_order b) \<and> bm_inv (fetch_seq ps b)"
proof (induction ps arbitrary: b)
  case Nil
  then show ?case by simp
next
  case (Cons p ps)
  have "bm_inv (snd (fetchPage p b))"
    using fetchPage_inv [OF Cons.prems, of p "fst (fetchPage p b)"] by simp
  with Cons.IH [of "snd (fetchPage p b)"] show ?case
    by (simp add: fetchPage_resident_order [OF Cons.prems])
qed

lemma lru_seq_snoc: "lru_seq (ps @ [p]) xs = lru_fetch p (lru_seq ps xs)"
  by (induction ps arbitrary: xs) simp_all

lemma lru_fetch_shape:
  assumes "distinct xs" and "length xs \<le> BUFFER_CAPACITY"
  shows "distinct (lru_fetch p xs) \<and> length (lru_fetch p xs) \<le> BUFFER_CAPACITY"
proof (cases "p \<in> set xs \<or> length xs < BUFFER_CAPACITY")
  case True
  have "length (removeAll p xs) < length xs \<or> length xs < BUFFER_CAPACITY"
    using True by (auto intro: length_removeAll_less)
  then have "Suc (length (removeAll p xs)) \<le> BUFFER_CAPACITY"
    using assms(2) length_removeAll_less_eq [of p xs] by linarith
  then show ?thesis using True assms by (simp add: lru_fetch_def)
next
  case False
  then have "xs \<noteq> []" and "p \<notin> set (butlast xs)" using assms by (auto dest: in_set_butlastD)
  then show ?thesis using False assms by (simp add: lru_fetch_def distinct_butlast)
qed

lemma lru_seq_shape:
  "distinct xs \<Longrightarrow> length xs \<le> BUFFER_CAPACITY \<Longrightarrow>
   distinct (lru_seq ps xs) \<and> length (lru_seq ps xs) \<le> BUFFER_CAPACITY"
  by (induction ps arbitrary: xs) (simp_all add: lru_fetch_shape)

lemma lru_seq_prefix:
  assumes "distinct ps" and "length ps \<le> BUFFER_CAPACITY"
    and "distinct xs" and "length xs \<le> BUFFER_CAPACITY"
  shows "\<exists>zs. lru_seq ps xs = rev ps @ zs"
  using assms(1,2)
proof (induction ps rule: rev_induct)
  case Nil
  then show ?case by simp
next
  case (snoc p ps)
  then obtain zs where ys: "lru_seq ps xs = rev ps @ zs" by auto
  have shape: "distinct (rev ps @ zs)" "length (rev ps @ zs) \<le> BUFFER_CAPACITY"
    using lru_seq_shape [OF assms(3,4), of ps] ys by simp_all
  have pn: "p \<notin> set ps" using snoc.prems by simp
  show ?case
  proof (cases "p \<in> set (rev ps @ zs) \<or> length (rev ps @ zs) < BUFFER_CAPACITY")
    case True
    then show ?thesis using pn by (simp add: lru_seq_snoc ys lru_fetch_def)
  next
    case False
    with snoc.prems have "zs \<noteq> []" by auto
    moreover have "p \<notin> set (butlast zs)" using False by (auto dest: in_set_butlastD)
    ultimately show ?thesis using False pn
      by (simp add: lru_seq_snoc ys lru_fetch_def butlast_append)
  qed
qed

lemma resident_order_shape:
  "bm_inv b \<Longrightarrow> distinct (resident_order b) \<and> length (resident_order b) \<le> BUFFER_CAPACITY"
  using frames_ok_unique [of b]
  by (auto simp: bm_inv_def lru_shape_def resident_order_def distinct_map intro: inj_onI)

text \<open>C13. LRU correctness: after pages \<open>p\<^sub>1, \<dots>, p\<^sub>C\<close> (all different,
  \<open>C = BUFFER_CAPACITY\<close>) are fetched in this order from any consistent cache, a miss on a
  further page evicts \<open>p\<^sub>1\<close>, the least recently touched, and keeps the others in
  recency order.\<close>

theorem lru_evicts_least_recent:
  assumes "bm_inv b" and "distinct ps" and "length ps = BUFFER_CAPACITY" and "q \<notin> set ps"
  shows "resident_order (snd (fetchPage q (fetch_seq ps b))) = q # rev (tl ps)"
proof -
  let ?b = "fetch_seq ps b"
  have ref: "resident_order ?b = lru_seq ps (resident_order b)" and inv: "bm_inv ?b"
    using fetch_seq_refines [OF assms(1)] by simp_all
  obtain zs where pre: "resident_order ?b = rev ps @ zs"
    using lru_seq_prefix [OF assms(2)] assms(3) resident_order_shape [OF assms(1)] ref by auto
  have "length (resident_order ?b) \<le> BUFFER_CAPACITY" using resident_order_shape [OF inv] by simp
  with pre assms(3) have full: "resident_order ?b = rev ps" by simp
  have "set (tl ps) \<subseteq> set ps" by (cases ps) auto
  then have "removeAll q (rev (tl ps)) = rev (tl ps)" using assms(4) by (intro removeAll_not_in) auto
  then show ?thesis
    using fetchPage_resident_order [OF inv, of q] full assms(3,4)
    by (simp add: lru_fetch_def in_set_butlastD)
qed

lemma lru_evicts_least_recent_witness:
  "resident_order (snd (fetchPage 4 (fetch_seq [1, 2, 3] (BufferManager_init StorageManager_init))))
     = [4, 3, 2]"
  using lru_evicts_least_recent [OF BufferManager_init_inv, of "[1, 2, 3]" 4]
  by (simp add: BUFFER_CAPACITY_def)

section \<open>Step lemmas for the callers of the manager\<close>

text \<open>The tree's proofs read the manager through these: what \<open>touch\<close> leaves
  alone, a hit, a dirty mark on a resident page, and a miss on a full cache whose
  stream has failed (the state the engine reaches on its first allocation, see
  \<open>Engine\<close>): the victim is not written back and keeps its old bytes.\<close>

lemma touch_fields [simp]:
  "pool (touch i b) = pool b" "pageTable (touch i b) = pageTable b" "sm (touch i b) = sm b"
  "nextPageID (touch i b) = nextPageID b" "lru (touch i b) = i # removeAll i (lru b)"
  by (simp_all add: touch_def)

lemma markDirty_Some:
  "pageTable b p = Some i \<Longrightarrow> markDirty p b = b\<lparr>pool := (pool b)[i := (pool b ! i)\<lparr>dirty := True\<rparr>]\<rparr>"
  by (simp add: markDirty_def)

lemma fetchPage_hit:
  "pageTable b p = Some i \<Longrightarrow> fetchPage p b = (i, touch i b)"
  by (simp add: fetchPage_def)

lemma fetchPage_miss_full_failed:
  assumes "failed (sm b)" and "pageTable b p = None" and "length (lru b) = BUFFER_CAPACITY"
  shows "fetchPage p b =
    (last (lru b), touch (last (lru b))
       (b\<lparr>lru := butlast (lru b),
          pool := (pool b)[last (lru b) := (pool b ! last (lru b))\<lparr>pageID := p, dirty := False\<rparr>],
          pageTable := ((pageTable b)(pageID (pool b ! last (lru b)) := None))(p \<mapsto> last (lru b))\<rparr>))"
proof -
  have ev: "evict b = (last (lru b), b\<lparr>pageTable := (pageTable b)(pageID (pool b ! last (lru b)) := None),
                            lru := butlast (lru b)\<rparr>)"
    using assms(1,3) by (simp add: evict_def Let_def writeDisk_def)
  have "readDisk p (data (pool b ! last (lru b))) (sm b) = (data (pool b ! last (lru b)), sm b)"
    using assms(1) by (simp add: readDisk_def)
  then show ?thesis using ev assms(2) by (simp add: fetchPage_def)
qed

text \<open>Any fetch on a full cache whose stream has failed: a hit touches the frame, a
  miss re-uses the least recent frame over its old bytes.\<close>

lemma fetchPage_full_failed:
  assumes "failed (sm b)" and "length (lru b) = BUFFER_CAPACITY"
  shows "fetchPage p b =
    (case pageTable b p of
       Some i \<Rightarrow> (i, touch i b)
     | None \<Rightarrow> (last (lru b), touch (last (lru b))
         (b\<lparr>lru := butlast (lru b),
            pool := (pool b)[last (lru b) := (pool b ! last (lru b))\<lparr>pageID := p, dirty := False\<rparr>],
            pageTable := ((pageTable b)(pageID (pool b ! last (lru b)) := None))(p \<mapsto> last (lru b))\<rparr>)))"
  by (cases "pageTable b p") (simp_all add: fetchPage_hit fetchPage_miss_full_failed assms)

text \<open>C18. On a failed stream a miss re-uses the least recent frame without
  writing it back and without reading anything: the requested page id is installed
  over the victim's bytes, clean, so the page silently takes the contents of the
  page that was evicted, and the evicted page's changes are gone.\<close>

theorem stale_fetch_after_failure:
  assumes inv: "bm_inv b" and fl: "failed (sm b)" and miss: "pageTable b p = None"
    and full: "length (lru b) = BUFFER_CAPACITY" and fp: "fetchPage p b = (i, b')"
  shows "i = last (lru b) \<and> data (pool b' ! i) = data (pool b ! i) \<and> pageID (pool b' ! i) = p \<and>
         \<not> dirty (pool b' ! i) \<and> sm b' = sm b"
proof -
  have ne: "lru b \<noteq> []" using full by auto
  have "last (lru b) < length (pool b)"
    using inv ne lru_shape_nth_lt [of "lru b" "last (lru b)"] by (simp add: bm_inv_def frames_ok_def)
  then show ?thesis using fetchPage_miss_full_failed [OF fl miss full] fp by auto
qed

lemma stale_fetch_after_failure_witness:
  "data (pool (snd (fetchPage 5
      \<lparr>sm = \<lparr>blocks = [], failed = True\<rparr>,
       pool = [\<lparr>pageID = 0, dirty = False, data = zero_node\<rparr>, \<lparr>pageID = 1, dirty = False, data = zero_node\<rparr>,
               \<lparr>pageID = 2, dirty = True, data = zero_node\<lparr>numKeys := 7\<rparr>\<rparr>],
       pageTable = [0 \<mapsto> 0, 1 \<mapsto> 1, 2 \<mapsto> 2], lru = [0, 1, 2], nextPageID = 3\<rparr>)) ! 2)
   = zero_node\<lparr>numKeys := 7\<rparr>"
proof -
  let ?b = "\<lparr>sm = \<lparr>blocks = [], failed = True\<rparr>,
       pool = [\<lparr>pageID = 0, dirty = False, data = zero_node\<rparr>, \<lparr>pageID = 1, dirty = False, data = zero_node\<rparr>,
               \<lparr>pageID = 2, dirty = True, data = zero_node\<lparr>numKeys := 7\<rparr>\<rparr>],
       pageTable = [0 \<mapsto> 0, 1 \<mapsto> 1, 2 \<mapsto> 2], lru = [0, 1, 2], nextPageID = 3\<rparr>"
  have inv: "bm_inv ?b"
    by (auto simp: bm_inv_def lru_shape_def frames_ok_def BUFFER_CAPACITY_def nth_Cons' split: if_splits)
  obtain i b' where fp: "fetchPage 5 ?b = (i, b')" by (cases "fetchPage 5 ?b")
  have "i = 2 \<and> data (pool b' ! i) = zero_node\<lparr>numKeys := 7\<rparr>"
    using stale_fetch_after_failure [OF inv _ _ _ fp] by (auto simp: BUFFER_CAPACITY_def)
  then show ?thesis using fp by auto
qed

end
