(* ===== verification/BPlusTree.thy ===== *)
theory BPlusTree
  imports Buffer
begin

text \<open>
  The index layer, \<^verbatim>\<open>class BPlusTree\<close> (StorageEngine.hpp, lines 121--203). Its state
  is the buffer manager it was built on (the C++ member \<^verbatim>\<open>bm\<close> is a reference through
  which every node is fetched and allocated) and the root page id. Each node access
  is a \<open>fetchPage\<close> that yields a frame index, and each store through the node
  pointer is a \<open>write_frame\<close> on that frame, in the order the C++ statements run.
  The three loops of the source are recursive functions: \<open>scan_keys\<close> (the child
  search of \<^verbatim>\<open>findLeaf\<close>), \<open>shift_insert\<close> (the shifting insertion of
  \<^verbatim>\<open>insertIntoLeaf\<close>) and \<open>copy_keys\<close> (the two copy loops of \<^verbatim>\<open>splitLeaf\<close>).
  \<^verbatim>\<open>findLeaf\<close> recurses along child page ids read from the pages themselves, so
  nothing in its code bounds the recursion: it is a \<^theory_text>\<open>partial_function\<close>
  into \<open>option\<close>, \<open>None\<close> standing for a descent that never returns or that
  indexes an array out of bounds.
\<close>

record BPlusTree =
  bm :: BufferManager
  rootPage :: pid

text \<open>\<^verbatim>\<open>while (i < node->numKeys && key >= node->keys[i]) i++;\<close> from index \<open>i\<close>;
  reading \<^verbatim>\<open>keys[i]\<close> past the array is undefined behaviour (\<open>None\<close>).\<close>

function scan_keys :: "int list \<Rightarrow> int \<Rightarrow> int \<Rightarrow> nat \<Rightarrow> nat option" where
  "scan_keys ks nk key i =
     (if int i < nk then
        (if i < length ks then (if key \<ge> ks ! i then scan_keys ks nk key (Suc i) else Some i)
         else None)
      else Some i)"
  by pat_completeness auto
termination
  by (relation "measure (\<lambda>(ks, nk, key, i). nat (nk - int i))") auto

text \<open>\<^verbatim>\<open>while (i >= 0 && node->keys[i] > key) { keys[i+1] = keys[i]; i--; }
  keys[i+1] = key;\<close> from \<open>i = numKeys - 1\<close>.\<close>

function shift_insert :: "int list \<Rightarrow> int \<Rightarrow> int \<Rightarrow> int list" where
  "shift_insert ks key i =
     (if 0 \<le> i \<and> ks ! nat i > key then shift_insert (ks[nat (i + 1) := ks ! nat i]) key (i - 1)
      else ks[nat (i + 1) := key])"
  by pat_completeness auto
termination
  by (relation "measure (\<lambda>(ks, key, i). nat (i + 1))") auto

text \<open>\<^verbatim>\<open>for (int i = 0; i < n; i++) node->keys[i] = tempKeys[off + i];\<close>\<close>

primrec copy_keys :: "int list \<Rightarrow> int list \<Rightarrow> nat \<Rightarrow> nat \<Rightarrow> int list" where
  "copy_keys ks src off 0 = ks"
| "copy_keys ks src off (Suc n) = (copy_keys ks src off n)[n := src ! (off + n)]"

text \<open>The constructor: allocate the root, make it an empty leaf with no parent.\<close>

definition BPlusTree_init :: "BufferManager \<Rightarrow> BPlusTree" where
  "BPlusTree_init b0 =
     (case allocatePage b0 of (r, b1) \<Rightarrow>
      case fetchPage r b1 of (i, b2) \<Rightarrow>
        \<lparr>bm = write_frame i (\<lambda>n. n\<lparr>isLeaf := True, numKeys := 0, parentPage := -1\<rparr>) b2,
         rootPage = r\<rparr>)"

partial_function (option) findLeaf :: "pid \<Rightarrow> int \<Rightarrow> BufferManager \<Rightarrow> (pid \<times> BufferManager) option"
where
  "findLeaf p key b =
     (case fetchPage p b of (i, b1) \<Rightarrow>
        (if isLeaf (data (pool b1 ! i)) then Some (p, b1)
         else (case scan_keys (keys (data (pool b1 ! i))) (numKeys (data (pool b1 ! i))) key 0 of
                 None \<Rightarrow> None
               | Some j \<Rightarrow>
                   if j < length (children (data (pool b1 ! i)))
                   then findLeaf (children (data (pool b1 ! i)) ! j) key b1 else None)))"

text \<open>\<^verbatim>\<open>insertIntoParent\<close> handles a split of the root only; any other call does
  nothing.\<close>

definition insertIntoParent :: "pid \<Rightarrow> int \<Rightarrow> pid \<Rightarrow> BPlusTree \<Rightarrow> BPlusTree" where
  "insertIntoParent left key right t =
     (if left = rootPage t then
        (case allocatePage (bm t) of (nr, b1) \<Rightarrow>
         case fetchPage nr b1 of (i, b2) \<Rightarrow>
           t\<lparr>bm := write_frame i (\<lambda>n. n\<lparr>isLeaf := False, keys := (keys n)[0 := key],
                     children := (children n)[0 := left, 1 := right], numKeys := 1\<rparr>) b2,
             rootPage := nr\<rparr>)
      else t)"

text \<open>\<^verbatim>\<open>tempKeys\<close> of \<^verbatim>\<open>splitLeaf\<close> (lines 171--173): the \<open>MAX_KEYS\<close> slots of the
  old leaf, whatever its key count, then the new key, sorted.\<close>

definition split_tmp :: "BPlusNode \<Rightarrow> int \<Rightarrow> int list" where
  "split_tmp n key = sort (take MAX_KEYS (keys n) @ [key])"

text \<open>The stores of \<^verbatim>\<open>splitLeaf\<close> (lines 175--184), through the pointers \<open>io\<close>
  (old leaf) and \<open>inw\<close> (new leaf), in source order.\<close>

definition split_writes :: "pid \<Rightarrow> pid \<Rightarrow> frame_idx \<Rightarrow> frame_idx \<Rightarrow> int \<Rightarrow> BufferManager \<Rightarrow> BufferManager" where
  "split_writes oldp newp io inw key b3 =
     (let tmp = split_tmp (data (pool b3 ! io)) key;
          mid = (MAX_KEYS + 1) div 2;
          b4 = write_frame inw (\<lambda>n. n\<lparr>isLeaf := True\<rparr>) b3;
          b5 = write_frame io (\<lambda>n. n\<lparr>numKeys := int mid\<rparr>) b4;
          b6 = write_frame inw (\<lambda>n. n\<lparr>numKeys := int (MAX_KEYS + 1) - int mid\<rparr>) b5;
          b7 = write_frame io (\<lambda>n. n\<lparr>keys := copy_keys (keys n) tmp 0 (nat (numKeys n))\<rparr>) b6;
          b8 = write_frame inw (\<lambda>n. n\<lparr>keys := copy_keys (keys n) tmp mid (nat (numKeys n))\<rparr>) b7
      in markDirty newp (markDirty oldp b8))"

definition splitLeaf :: "pid \<Rightarrow> int \<Rightarrow> BPlusTree \<Rightarrow> BPlusTree" where
  "splitLeaf oldp key t =
     (case allocatePage (bm t) of (newp, b1) \<Rightarrow>
      case fetchPage oldp b1 of (io, b2) \<Rightarrow>
      case fetchPage newp b2 of (inw, b3) \<Rightarrow>
        (let b9 = split_writes oldp newp io inw key b3
         in insertIntoParent oldp (keys (data (pool b9 ! inw)) ! 0) newp (t\<lparr>bm := b9\<rparr>)))"

text \<open>The in-place insertion of \<^verbatim>\<open>insertIntoLeaf\<close>'s first branch, as a node update.\<close>

definition leaf_put :: "int \<Rightarrow> BPlusNode \<Rightarrow> BPlusNode" where
  "leaf_put key n = n\<lparr>keys := shift_insert (keys n) key (numKeys n - 1), numKeys := numKeys n + 1\<rparr>"

definition insertIntoLeaf :: "pid \<Rightarrow> int \<Rightarrow> BPlusTree \<Rightarrow> BPlusTree" where
  "insertIntoLeaf p key t =
     (case fetchPage p (bm t) of (i, b1) \<Rightarrow>
        (if numKeys (data (pool b1 ! i)) < int MAX_KEYS then
           t\<lparr>bm := markDirty p (write_frame i (leaf_put key) b1)\<rparr>
         else splitLeaf p key (t\<lparr>bm := b1\<rparr>)))"

text \<open>\<^verbatim>\<open>insert\<close> (named \<open>tree_insert\<close>: \<open>insert\<close> is HOL's set insertion).\<close>

definition tree_insert :: "int \<Rightarrow> BPlusTree \<Rightarrow> BPlusTree option" where
  "tree_insert key t =
     (case findLeaf (rootPage t) key (bm t) of
        None \<Rightarrow> None
      | Some (leaf, b1) \<Rightarrow> Some (insertIntoLeaf leaf key (t\<lparr>bm := b1\<rparr>)))"

declare shift_insert.simps [simp del] scan_keys.simps [simp del]

section \<open>The loops\<close>

lemma scan_keys_from:
  assumes "0 \<le> nk" and "nat nk \<le> length ks" and "i \<le> nat nk"
  shows "scan_keys ks nk key i = Some (i + length (takeWhile (\<lambda>k. k \<le> key) (drop i (take (nat nk) ks))))"
  using assms
proof (induction ks nk key i rule: scan_keys.induct)
  case (1 ks nk key i)
  show ?case
  proof (cases "int i < nk")
    case True
    then have il: "i < length ks" "i < nat nk" using "1.prems" by linarith+
    then have "i < length (take (nat nk) ks)" by simp
    then have "drop i (take (nat nk) ks) = take (nat nk) ks ! i # drop (Suc i) (take (nat nk) ks)"
      by (rule Cons_nth_drop_Suc [symmetric])
    then have dr: "drop i (take (nat nk) ks) = ks ! i # drop (Suc i) (take (nat nk) ks)"
      using il by simp
    show ?thesis
    proof (cases "key \<ge> ks ! i")
      case True
      with "1.IH" [OF \<open>int i < nk\<close> il(1) True] "1.prems" il
      show ?thesis by (simp add: dr scan_keys.simps [of ks nk key i])
    next
      case False
      with \<open>int i < nk\<close> il show ?thesis by (simp add: dr scan_keys.simps [of ks nk key i])
    qed
  next
    case False
    with "1.prems" have i: "i = nat nk" by linarith
    have "scan_keys ks nk key i = Some i"
      by (subst scan_keys.simps) (rule if_not_P [OF False])
    with i show ?thesis by simp
  qed
qed

lemma insort_snoc_less:
  "(x::int) < y \<Longrightarrow> insort x (xs @ [y]) = insort x xs @ [y]"
  by (induction xs) auto

lemma insort_all_le:
  "sorted xs \<Longrightarrow> \<forall>y \<in> set xs. y \<le> (x::int) \<Longrightarrow> insort x xs = xs @ [x]"
proof (induction xs)
  case Nil
  then show ?case by simp
next
  case (Cons y ys)
  show ?case
  proof (cases "x \<le> y")
    case True
    with Cons.prems have xy: "x = y" and all: "\<forall>z \<in> set ys. z = x"
      by (auto intro: order.antisym)
    from all have eq: "x # ys = ys @ [x]" by (induction ys) auto
    have "insort x (y # ys) = x # y # ys" using True by simp
    also have "\<dots> = x # (x # ys)" using xy by simp
    also have "\<dots> = x # (ys @ [x])" using eq by simp
    also have "\<dots> = (y # ys) @ [x]" using xy by simp
    finally show ?thesis .
  next
    case False
    with Cons show ?thesis by simp
  qed
qed

lemma shift_insert_eq:
  assumes "-1 \<le> i" and "nat (i + 1) < length ks" and "sorted (take (nat (i + 1)) ks)"
  shows "shift_insert ks key i = insort key (take (nat (i + 1)) ks) @ drop (nat (i + 2)) ks"
  using assms
proof (induction ks key i rule: shift_insert.induct)
  case (1 ks key i)
  show ?case
  proof (cases "0 \<le> i \<and> ks ! nat i > key")
    case True
    let ?ks' = "ks[nat (i + 1) := ks ! nat i]"
    have ni: "nat (i + 1) = Suc (nat i)" using True by (simp add: nat_add_distrib)
    have tk: "take (nat (i + 1)) ks = take (nat i) ks @ [ks ! nat i]"
      using ni "1.prems"(2) by (simp add: take_Suc_conv_app_nth)
    have tk': "take (nat (i - 1 + 1)) ?ks' = take (nat i) ks" by simp
    have dr': "drop (nat (i - 1 + 2)) ?ks' = ks ! nat i # drop (nat (i + 2)) ks"
    proof -
      have "nat (i - 1 + 2) = nat (i + 1)" by simp
      moreover have "drop (nat (i + 1)) ?ks' = ?ks' ! nat (i + 1) # drop (Suc (nat (i + 1))) ?ks'"
        by (rule Cons_nth_drop_Suc [symmetric]) (simp add: "1.prems"(2))
      moreover have "drop (Suc (nat (i + 1))) ?ks' = drop (Suc (nat (i + 1))) ks"
        by (simp add: drop_update_cancel)
      moreover have "nat (i + 2) = Suc (nat (i + 1))" using True by (simp add: nat_add_distrib)
      ultimately show ?thesis using "1.prems"(2) by simp
    qed
    have "sorted (take (nat (i - 1 + 1)) ?ks')"
      using "1.prems"(3) by (simp add: tk sorted_append)
    then have "shift_insert ?ks' key (i - 1) = insort key (take (nat i) ks) @ ks ! nat i # drop (nat (i + 2)) ks"
      using "1.IH" [OF True] "1.prems"(2) True tk' dr' by simp
    then show ?thesis using True tk insort_snoc_less [of key "ks ! nat i" "take (nat i) ks"]
      by (simp add: shift_insert.simps [of ks key i])
  next
    case False
    have upd: "ks[nat (i + 1) := key] = take (nat (i + 1)) ks @ key # drop (nat (i + 2)) ks"
    proof -
      have "nat (i + 2) = Suc (nat (i + 1))" using "1.prems"(1) by (simp add: nat_add_distrib)
      then show ?thesis using "1.prems"(2) by (simp add: upd_conv_take_nth_drop)
    qed
    have "\<forall>y \<in> set (take (nat (i + 1)) ks). y \<le> key"
    proof (cases "0 \<le> i")
      case True
      with False have le: "ks ! nat i \<le> key" by simp
      have "take (nat (i + 1)) ks = take (nat i) ks @ [ks ! nat i]"
        using True "1.prems"(2) by (simp add: take_Suc_conv_app_nth nat_add_distrib)
      with "1.prems"(3) le show ?thesis by (auto simp: sorted_append)
    next
      case False
      then have "nat (i + 1) = 0" using "1.prems"(1) by simp
      then show ?thesis by simp
    qed
    with "1.prems"(3) have "insort key (take (nat (i + 1)) ks) = take (nat (i + 1)) ks @ [key]"
      by (rule insort_all_le)
    moreover have "shift_insert ks key i = ks[nat (i + 1) := key]"
      by (subst shift_insert.simps) (rule if_not_P [OF False])
    ultimately show ?thesis using upd by simp
  qed
qed

lemma copy_keys_take:
  "n \<le> length ks \<Longrightarrow> off + n \<le> length src \<Longrightarrow>
   copy_keys ks src off n = take n (drop off src) @ drop n ks"
proof (induction n)
  case 0
  then show ?case by simp
next
  case (Suc n)
  then show ?case
    by (simp add: upd_conv_take_nth_drop take_Suc_conv_app_nth min_def)
qed

lemma copy_keys_2: "copy_keys ks src off 2 = ks[0 := src ! off, 1 := src ! (off + 1)]"
  by (simp add: numeral_2_eq_2)

section \<open>Node-level behaviour of the tree operations\<close>

text \<open>C14. Routing in \<^verbatim>\<open>findLeaf\<close>: on a well-formed node the child index the scan
  loop stops at is the number of stored keys that are at most the search key, so
  keys equal to a separator go to its right.\<close>

theorem findLeaf_child_index:
  assumes "node_wf n"
  shows "scan_keys (keys n) (numKeys n) key 0 = Some (length (takeWhile (\<lambda>k. k \<le> key) (node_keys n)))"
proof -
  from assms have "0 \<le> numKeys n" and "nat (numKeys n) \<le> length (keys n)"
    by (auto simp: node_wf_def)
  then show ?thesis using scan_keys_from [of "numKeys n" "keys n" 0 key]
    by (simp add: node_keys_def)
qed

lemma findLeaf_child_index_witness:
  "scan_keys [30, 0, 0] 1 50 0 = Some 1"
proof -
  have "node_wf (zero_node\<lparr>numKeys := 1, keys := [30, 0, 0]\<rparr>)"
    by (simp add: node_wf_def node_keys_def zero_node_def MAX_KEYS_def)
  from findLeaf_child_index [OF this, of 50] show ?thesis
    by (simp add: node_keys_def)
qed


lemma leaf_put_wf_keys:
  assumes wf: "node_wf n" and leaf: "isLeaf n" and room: "numKeys n < int MAX_KEYS"
  shows "node_keys (leaf_put key n) = insort key (node_keys n) \<and> node_wf (leaf_put key n) \<and>
         isLeaf (leaf_put key n)"
proof -
  let ?k = "nat (numKeys n)"
  from wf room have k: "?k < length (keys n)" "0 \<le> numKeys n" and len: "length (keys n) = MAX_KEYS"
    by (auto simp: node_wf_def)
  have srt: "sorted (take ?k (keys n))"
    using wf by (simp add: node_wf_def node_keys_def)
  have e1: "nat (numKeys n - 1 + 1) = ?k" by simp
  have e2: "nat (numKeys n - 1 + 2) = Suc ?k" using k(2) by linarith
  have sh: "shift_insert (keys n) key (numKeys n - 1) = insort key (take ?k (keys n)) @ drop (Suc ?k) (keys n)"
    using shift_insert_eq [of "numKeys n - 1" "keys n" key] k srt e1 e2 by simp
  have ln: "length (insort key (take ?k (keys n))) = Suc ?k" using k by simp
  have nk: "nat (numKeys n + 1) = Suc ?k" using k by linarith
  have keys': "node_keys (leaf_put key n) = insort key (node_keys n)"
    using sh ln nk by (simp add: leaf_put_def node_keys_def)
  have "length (keys (leaf_put key n)) = MAX_KEYS" using sh ln k len by (simp add: leaf_put_def)
  moreover have "numKeys (leaf_put key n) \<le> int MAX_KEYS" using room by (simp add: leaf_put_def)
  moreover have "sorted (node_keys (leaf_put key n))" using keys' srt by (simp add: node_keys_def sorted_insort)
  ultimately show ?thesis using keys' wf k leaf by (simp add: node_wf_def leaf_put_def)
qed

text \<open>C15. The shifting loop of \<^verbatim>\<open>insertIntoLeaf\<close> is an insertion into the sorted
  key list: on a well-formed leaf with room, the keys afterwards are \<open>insort key\<close>
  of the keys before, and the node stays a well-formed leaf.\<close>

theorem insertIntoLeaf_is_insort:
  assumes "node_wf n" and "isLeaf n" and "numKeys n < int MAX_KEYS"
  shows "node_keys (leaf_put key n) = insort key (node_keys n) \<and> node_wf (leaf_put key n) \<and> isLeaf (leaf_put key n)"
  using assms by (rule leaf_put_wf_keys)

lemma insertIntoLeaf_is_insort_witness:
  "node_keys (leaf_put 25 (zero_node\<lparr>isLeaf := True, numKeys := 2, keys := [10, 30, 0]\<rparr>)) = [10, 25, 30]"
proof -
  let ?n = "zero_node\<lparr>isLeaf := True, numKeys := 2, keys := [10, 30, 0]\<rparr>"
  have "node_wf ?n" and "isLeaf ?n" and "numKeys ?n < int MAX_KEYS"
    by (simp_all add: node_wf_def node_keys_def zero_node_def MAX_KEYS_def)
  from insertIntoLeaf_is_insort [OF this, of 25] show ?thesis
    by (simp add: node_keys_def)
qed

section \<open>The split on the buffer\<close>

text \<open>The stores of the split, read as two frame updates: the old leaf keeps the
  lower half of \<open>tempKeys\<close>, the new leaf gets the upper half, both dirty.\<close>

lemma split_writes_eq:
  assumes ne: "io \<noteq> inw" and lio: "io < length (pool b)" and linw: "inw < length (pool b)"
    and pto: "pageTable b oldp = Some io" and ptn: "pageTable b newp = Some inw"
  shows "split_writes oldp newp io inw key b =
    (let tmp = split_tmp (data (pool b ! io)) key in
     b\<lparr>pool := (pool b)
        [io := (pool b ! io)\<lparr>data := (data (pool b ! io))\<lparr>numKeys := 2,
                   keys := copy_keys (keys (data (pool b ! io))) tmp 0 2\<rparr>, dirty := True\<rparr>,
         inw := (pool b ! inw)\<lparr>data := (data (pool b ! inw))\<lparr>isLeaf := True, numKeys := 2,
                   keys := copy_keys (keys (data (pool b ! inw))) tmp 2 2\<rparr>, dirty := True\<rparr>]\<rparr>)"
proof -
  have n2: "nat 2 = 2" by simp
  show ?thesis
    using ne lio linw pto ptn
    by (simp add: split_writes_def Let_def write_frame_def markDirty_Some MAX_KEYS_def
        nth_list_update list_update_swap [OF ne] n2)
qed

text \<open>The two halves are the lower and upper half of \<open>tempKeys\<close> and are
  well-formed nodes.\<close>

lemma split_halves:
  fixes k :: int and n n' :: BPlusNode
  assumes wf: "node_wf n" and lf: "isLeaf n" and ln: "length (keys n') = MAX_KEYS"
    and lc: "length (children n') = Suc MAX_KEYS"
  shows "node_keys (n\<lparr>numKeys := 2, keys := copy_keys (keys n) (split_tmp n k) 0 2\<rparr>) = take 2 (split_tmp n k) \<and>
         node_keys (n'\<lparr>isLeaf := True, numKeys := 2, keys := copy_keys (keys n') (split_tmp n k) 2 2\<rparr>)
           = drop 2 (split_tmp n k) \<and>
         node_wf (n\<lparr>numKeys := 2, keys := copy_keys (keys n) (split_tmp n k) 0 2\<rparr>) \<and>
         node_wf (n'\<lparr>isLeaf := True, numKeys := 2, keys := copy_keys (keys n') (split_tmp n k) 2 2\<rparr>)"
proof -
  let ?tmp = "split_tmp n k"
  have lk: "length (keys n) = 3" using wf by (simp add: node_wf_def MAX_KEYS_def)
  have lt: "length ?tmp = 4" using lk by (simp add: split_tmp_def MAX_KEYS_def)
  have st: "sorted ?tmp" by (simp add: split_tmp_def)
  have c1: "copy_keys (keys n) ?tmp 0 2 = take 2 ?tmp @ drop 2 (keys n)"
    using lk lt by (simp add: copy_keys_take)
  have c2: "copy_keys (keys n') ?tmp 2 2 = take 2 (drop 2 ?tmp) @ drop 2 (keys n')"
    using ln lt by (simp add: copy_keys_take MAX_KEYS_def)
  have k1: "node_keys (n\<lparr>numKeys := 2, keys := copy_keys (keys n) ?tmp 0 2\<rparr>) = take 2 ?tmp"
    using c1 lt by (simp add: node_keys_def)
  have k2: "node_keys (n'\<lparr>isLeaf := True, numKeys := 2, keys := copy_keys (keys n') ?tmp 2 2\<rparr>) = drop 2 ?tmp"
    using c2 lt by (simp add: node_keys_def)
  have s1: "sorted (take 2 ?tmp)" and s2: "sorted (drop 2 ?tmp)"
    using st by (simp_all add: sorted_wrt_take sorted_wrt_drop)
  show ?thesis
    using k1 k2 s1 s2 c1 c2 wf lf ln lc lk lt by (simp add: node_wf_def MAX_KEYS_def)
qed

lemma split_writes_inv: "bm_inv b \<Longrightarrow> bm_inv (split_writes oldp newp io inw key b)"
  by (simp add: split_writes_def Let_def markDirty_inv write_frame_inv)

text \<open>A split below the root keeps the manager's invariant (the root case is the
  same chain followed by \<open>insertIntoParent\<close>'s allocation and fetch).\<close>

lemma splitLeaf_inv:
  assumes inv: "bm_inv (bm t)" and nr: "c \<noteq> rootPage t"
  shows "bm_inv (bm (splitLeaf c k t))"
proof -
  obtain p b1 where a: "allocatePage (bm t) = (p, b1)" by (cases "allocatePage (bm t)")
  obtain io b2 where f1: "fetchPage c b1 = (io, b2)" by (cases "fetchPage c b1")
  obtain inw b3 where f2: "fetchPage p b2 = (inw, b3)" by (cases "fetchPage p b2")
  have "bm_inv b3"
    using fetchPage_inv [OF fetchPage_inv [OF allocatePage_inv [OF inv a] f1] f2] .
  then show ?thesis using nr a f1 f2
    by (simp add: splitLeaf_def insertIntoParent_def split_writes_inv)
qed

text \<open>A split of a non-root leaf on a full cache whose stream has failed, in closed
  form: the allocation takes the least recent frame \<open>x\<close> (not written back), the
  new page gets the upper half, the old leaf the lower half, and
  \<^verbatim>\<open>insertIntoParent\<close> does nothing, so the new page is reachable from nowhere.\<close>

lemma splitLeaf_full:
  assumes inv: "bm_inv (bm t)" and fl: "failed (sm (bm t))" and l: "lru (bm t) = [m, r, x]"
    and c: "pageTable (bm t) c = Some m" and fresh: "pageTable (bm t) (nextPageID (bm t)) = None"
    and nr: "c \<noteq> rootPage t"
  shows "splitLeaf c k t = t\<lparr>bm := (bm t)\<lparr>nextPageID := nextPageID (bm t) + 1,
     pageTable := ((pageTable (bm t))(pageID (pool (bm t) ! x) := None))(nextPageID (bm t) \<mapsto> x),
     lru := [x, m, r],
     pool := (pool (bm t))
       [x := (pool (bm t) ! x)\<lparr>pageID := nextPageID (bm t),
              data := zero_node\<lparr>isLeaf := True, numKeys := 2,
                 keys := copy_keys (keys zero_node) (split_tmp (data (pool (bm t) ! m)) k) 2 2\<rparr>,
              dirty := True\<rparr>,
        m := (pool (bm t) ! m)\<lparr>data := (data (pool (bm t) ! m))\<lparr>numKeys := 2,
                 keys := copy_keys (keys (data (pool (bm t) ! m))) (split_tmp (data (pool (bm t) ! m)) k) 0 2\<rparr>,
              dirty := True\<rparr>]\<rparr>\<rparr>"
proof -
  let ?b = "bm t" and ?p = "nextPageID (bm t)"
  have sh: "lru_shape [m, r, x]" and fo: "frames_ok ?b" using inv l by (simp_all add: bm_inv_def)
  have d: "distinct [m, r, x]" using sh by (simp add: lru_shape_def)
  have lp: "length (pool ?b) = 3" using fo by (simp add: frames_ok_def BUFFER_CAPACITY_def)
  have lt: "m < 3" "r < 3" "x < 3" using sh by (auto simp: lru_shape_def)
  have px: "pageID (pool ?b ! x) \<noteq> c" using c l fo d frames_ok_iff [of ?b c x] inv
    by (auto simp: bm_inv_def)
  have cp: "c \<noteq> ?p" using c fresh by auto
  define B1 where "B1 = ?b\<lparr>nextPageID := ?p + 1, lru := [x, m, r],
     pageTable := ((pageTable ?b)(pageID (pool ?b ! x) := None))(?p \<mapsto> x),
     pool := (pool ?b)[x := (pool ?b ! x)\<lparr>pageID := ?p, data := zero_node, dirty := True\<rparr>]\<rparr>"
  have a: "allocatePage ?b = (?p, B1)"
  proof -
    have "fetchPage ?p (?b\<lparr>nextPageID := ?p + 1\<rparr>) = (x, touch x (?b\<lparr>nextPageID := ?p + 1,
       lru := [m, r], pool := (pool ?b)[x := (pool ?b ! x)\<lparr>pageID := ?p, dirty := False\<rparr>],
       pageTable := ((pageTable ?b)(pageID (pool ?b ! x) := None))(?p \<mapsto> x)\<rparr>))"
      using fetchPage_miss_full_failed [of "?b\<lparr>nextPageID := ?p + 1\<rparr>" ?p] fl fresh l
      by (simp add: BUFFER_CAPACITY_def)
    then show ?thesis using lp lt d
      by (simp add: allocatePage_def B1_def write_frame_def markDirty_def touch_def Let_def)
  qed
  have pt1: "pageTable B1 c = Some m" "pageTable B1 ?p = Some x"
    using c px cp by (simp_all add: B1_def)
  have f1: "fetchPage c B1 = (m, touch m B1)" using pt1(1) by (rule fetchPage_hit)
  have f2: "fetchPage ?p (touch m B1) = (x, touch x (touch m B1))"
    using pt1 by (simp add: fetchPage_hit)
  have mx: "m \<noteq> x" using d by simp
  have lB: "length (pool (touch x (touch m B1))) = 3" using lp by (simp add: B1_def)
  have sw: "split_writes c ?p m x k (touch x (touch m B1)) =
    (let tmp = split_tmp (data (pool (touch x (touch m B1)) ! m)) k in
     (touch x (touch m B1))\<lparr>pool := (pool (touch x (touch m B1)))
        [m := (pool (touch x (touch m B1)) ! m)\<lparr>data := (data (pool (touch x (touch m B1)) ! m))\<lparr>numKeys := 2,
                   keys := copy_keys (keys (data (pool (touch x (touch m B1)) ! m))) tmp 0 2\<rparr>, dirty := True\<rparr>,
         x := (pool (touch x (touch m B1)) ! x)\<lparr>data := (data (pool (touch x (touch m B1)) ! x))\<lparr>isLeaf := True, numKeys := 2,
                   keys := copy_keys (keys (data (pool (touch x (touch m B1)) ! x))) tmp 2 2\<rparr>, dirty := True\<rparr>]\<rparr>)"
    by (rule split_writes_eq [OF mx]) (use lB lt pt1 in simp_all)
  show ?thesis
    unfolding splitLeaf_def a prod.case f1 f2 sw
    using nr mx d lp lt
    by (simp add: Let_def insertIntoParent_def B1_def touch_def list_update_swap [OF mx])
qed

lemma split_tmp_insort:
  assumes "node_wf n" and "numKeys n = int MAX_KEYS"
  shows "split_tmp n k = insort k (node_keys n)"
proof -
  have nk: "node_keys n = take MAX_KEYS (keys n)" using assms by (simp add: node_keys_def)
  have "sorted (node_keys n)" using assms(1) by (simp add: node_wf_def)
  moreover have "sort (take MAX_KEYS (keys n) @ [k]) = insort k (sort (take MAX_KEYS (keys n)))"
    by (simp add: sort_conv_fold)
  ultimately have "sort (take MAX_KEYS (keys n) @ [k]) = insort k (node_keys n)"
    by (simp add: nk sorted_sort_id)
  then show ?thesis by (simp add: split_tmp_def)
qed

text \<open>C16. The split partitions the merged keys: when a full, well-formed leaf in
  frame \<open>io\<close> splits into the zero-filled frame \<open>inw\<close>, the old leaf keeps the lower
  half and the new leaf the upper half of the old keys with the new key inserted in
  order; both are well-formed leaves of two keys, and both are marked dirty.\<close>

theorem split_partition:
  assumes ne: "io \<noteq> inw" and lio: "io < length (pool b)" and linw: "inw < length (pool b)"
    and pto: "pageTable b oldp = Some io" and ptn: "pageTable b newp = Some inw"
    and wf: "node_wf (data (pool b ! io))" and lf: "isLeaf (data (pool b ! io))"
    and full: "numKeys (data (pool b ! io)) = int MAX_KEYS" and z: "data (pool b ! inw) = zero_node"
  shows "node_keys (data (pool (split_writes oldp newp io inw key b) ! io)) @
           node_keys (data (pool (split_writes oldp newp io inw key b) ! inw))
           = insort key (node_keys (data (pool b ! io))) \<and>
         node_wf (data (pool (split_writes oldp newp io inw key b) ! io)) \<and>
         node_wf (data (pool (split_writes oldp newp io inw key b) ! inw)) \<and>
         isLeaf (data (pool (split_writes oldp newp io inw key b) ! inw)) \<and>
         dirty (pool (split_writes oldp newp io inw key b) ! io) \<and>
         dirty (pool (split_writes oldp newp io inw key b) ! inw)"
proof -
  let ?n = "data (pool b ! io)"
  have h: "node_keys (?n\<lparr>numKeys := 2, keys := copy_keys (keys ?n) (split_tmp ?n key) 0 2\<rparr>) @
         node_keys (zero_node\<lparr>isLeaf := True, numKeys := 2, keys := copy_keys (keys zero_node) (split_tmp ?n key) 2 2\<rparr>)
           = split_tmp ?n key \<and>
         node_wf (?n\<lparr>numKeys := 2, keys := copy_keys (keys ?n) (split_tmp ?n key) 0 2\<rparr>) \<and>
         node_wf (zero_node\<lparr>isLeaf := True, numKeys := 2, keys := copy_keys (keys zero_node) (split_tmp ?n key) 2 2\<rparr>)"
    using split_halves [OF wf lf, of zero_node key] by (simp add: MAX_KEYS_def)
  show ?thesis
    using split_writes_eq [OF ne lio linw pto ptn, of key] h z ne lio linw
      split_tmp_insort [OF wf full, of key]
    by (simp add: Let_def)
qed

lemma split_partition_witness:
  "node_keys (data (pool (split_writes 0 1 0 1 25
      \<lparr>sm = StorageManager_init,
       pool = [\<lparr>pageID = 0, dirty = False, data = zero_node\<lparr>isLeaf := True, numKeys := 3, keys := [10, 20, 30]\<rparr>\<rparr>,
               \<lparr>pageID = 1, dirty = True, data = zero_node\<rparr>, empty_frame],
       pageTable = [0 \<mapsto> 0, 1 \<mapsto> 1], lru = [1, 0], nextPageID = 2\<rparr>) ! 0)) @
   node_keys (data (pool (split_writes 0 1 0 1 25
      \<lparr>sm = StorageManager_init,
       pool = [\<lparr>pageID = 0, dirty = False, data = zero_node\<lparr>isLeaf := True, numKeys := 3, keys := [10, 20, 30]\<rparr>\<rparr>,
               \<lparr>pageID = 1, dirty = True, data = zero_node\<rparr>, empty_frame],
       pageTable = [0 \<mapsto> 0, 1 \<mapsto> 1], lru = [1, 0], nextPageID = 2\<rparr>) ! 1))
   = [10, 20, 25, 30]"
proof -
  let ?b = "\<lparr>sm = StorageManager_init,
       pool = [\<lparr>pageID = 0, dirty = False, data = zero_node\<lparr>isLeaf := True, numKeys := 3, keys := [10, 20, 30]\<rparr>\<rparr>,
               \<lparr>pageID = 1, dirty = True, data = zero_node\<rparr>, empty_frame],
       pageTable = [0 \<mapsto> 0, 1 \<mapsto> 1], lru = [1, 0], nextPageID = 2\<rparr>"
  have "node_wf (data (pool ?b ! 0))"
    by (simp add: node_wf_def node_keys_def zero_node_eq MAX_KEYS_def)
  from split_partition [of 0 1 ?b 0 1 25, OF _ _ _ _ _ this] show ?thesis
    by (simp add: node_keys_def zero_node_eq MAX_KEYS_def)
qed

section \<open>What the descent leaves unchanged\<close>

text \<open>\<^verbatim>\<open>findLeaf\<close> changes the manager only through \<^verbatim>\<open>fetchPage\<close>: whatever every
  fetch keeps, a descent that returns keeps (partial correctness, by the
  fixpoint induction of the \<^theory_text>\<open>partial_function\<close>).\<close>

lemma findLeaf_preserves:
  assumes step: "\<And>p b i b1. Q b \<Longrightarrow> fetchPage p b = (i, b1) \<Longrightarrow> Q b1"
    and fl: "findLeaf p k b = Some (c, b')" and q: "Q b"
  shows "Q b'"
proof -
  have "Q b \<longrightarrow> Q (snd (c, b'))"
    apply (rule findLeaf.raw_induct [where P = "\<lambda>p k b r. Q b \<longrightarrow> Q (snd r)", OF _ fl])
    subgoal premises prems for f p k b r
    proof
      assume qb: "Q b"
      obtain i b1 where fp: "fetchPage p b = (i, b1)" by (cases "fetchPage p b")
      have q1: "Q b1" using step fp qb by blast
      show "Q (snd r)" using prems fp q1 by (auto split: if_splits option.splits)
    qed
    done
  then show ?thesis using q by simp
qed

lemma findLeaf_nextPageID:
  "findLeaf p k b = Some (c, b') \<Longrightarrow> nextPageID b' = nextPageID b"
  using findLeaf_preserves [where Q = "\<lambda>b1. nextPageID b1 = nextPageID b"] fetchPage_installs
  by fastforce

text \<open>The two branches of one descent step, as conditional rewrite rules: on a leaf
  the descent stops at the page; on an inner node it continues at the child the
  scan selects, if the index is inside the children array, and fails otherwise.\<close>

lemma findLeaf_at_leaf:
  "isLeaf (data (pool (snd (fetchPage p b)) ! fst (fetchPage p b))) \<Longrightarrow>
   findLeaf p k b = Some (p, snd (fetchPage p b))"
  by (cases "fetchPage p b") (simp add: findLeaf.simps [of p k b] split: option.split)

lemma findLeaf_inner:
  "\<not> isLeaf (data (pool (snd (fetchPage p b)) ! fst (fetchPage p b))) \<Longrightarrow>
   findLeaf p k b =
     (case scan_keys (keys (data (pool (snd (fetchPage p b)) ! fst (fetchPage p b))))
             (numKeys (data (pool (snd (fetchPage p b)) ! fst (fetchPage p b)))) k 0 of
        None \<Rightarrow> None
      | Some j \<Rightarrow> if j < length (children (data (pool (snd (fetchPage p b)) ! fst (fetchPage p b))))
                 then findLeaf (children (data (pool (snd (fetchPage p b)) ! fst (fetchPage p b))) ! j) k
                        (snd (fetchPage p b))
                 else None)"
  by (cases "fetchPage p b") (simp add: findLeaf.simps [of p k b] split: option.split)

lemmas findLeaf_steps = findLeaf_at_leaf findLeaf_inner

end
