(* ===== verification/Engine.thy ===== *)
theory Engine
  imports BPlusTree
begin

text \<open>
  The engine as \<^verbatim>\<open>main\<close> builds it (main.cpp, lines 9--11: a \<^verbatim>\<open>StorageManager\<close>
  on a truncated file, a \<^verbatim>\<open>BufferManager\<close> over it, a \<^verbatim>\<open>BPlusTree\<close> over that)
  and the inserts it then runs, as a transition system: \<open>reachable\<close> holds of the
  initial engine and is closed under \<open>tree_insert\<close>. The states reachable are of
  two shapes, and the theory names them and proves that each insert leads from one
  to one of them:
  \<^item> \<open>stA n\<close>: one leaf, page 0 in frame 0, the root (\<open>single_leaf\<close>);
  \<^item> \<open>two_level\<close>: the root is page 2, an internal node with one key over pages 0
    and 1; every resident frame other than the root's holds a well-formed leaf;
    the cache is full.
  In both the stream has failed and the file is empty: the first
  \<^verbatim>\<open>allocatePage\<close> of the constructor reads page 0 past the end of the empty file.
  The root frame is touched first on every insert, so it is never the victim of the
  eviction that follows, and \<^verbatim>\<open>findLeaf\<close> always reaches a leaf in two steps.
\<close>

definition engine_init :: BPlusTree where
  "engine_init = BPlusTree_init (BufferManager_init StorageManager_init)"

text \<open>\<^verbatim>\<open>tree.insert(k)\<close> for each key in turn; \<open>None\<close> if one of them does not return.\<close>

fun run_inserts :: "int list \<Rightarrow> BPlusTree \<Rightarrow> BPlusTree option" where
  "run_inserts [] t = Some t"
| "run_inserts (k # ks) t = (case tree_insert k t of None \<Rightarrow> None | Some t' \<Rightarrow> run_inserts ks t')"

inductive reachable :: "BPlusTree \<Rightarrow> bool" where
  init: "reachable engine_init"
| step: "reachable t \<Longrightarrow> tree_insert k t = Some t' \<Longrightarrow> reachable t'"

section \<open>The two shapes of the engine\<close>

definition stA :: "BPlusNode \<Rightarrow> BPlusTree" where
  "stA n = \<lparr>bm = \<lparr>sm = \<lparr>blocks = [], failed = True\<rparr>,
                 pool = [\<lparr>pageID = 0, dirty = True, data = n\<rparr>, empty_frame, empty_frame],
                 pageTable = [0 \<mapsto> 0], lru = [0], nextPageID = 1\<rparr>,
            rootPage = 0\<rparr>"

definition root_image :: "int \<Rightarrow> BPlusNode" where
  "root_image key = zero_node\<lparr>isLeaf := False, keys := (keys zero_node)[0 := key],
      children := (children zero_node)[0 := 0, 1 := 1], numKeys := 1\<rparr>"

definition stA_split :: "BPlusNode \<Rightarrow> int \<Rightarrow> BPlusTree" where
  "stA_split n k =
     (let tmp = split_tmp n k in
      \<lparr>bm = \<lparr>sm = \<lparr>blocks = [], failed = True\<rparr>,
             pool = [\<lparr>pageID = 0, dirty = True,
                      data = n\<lparr>numKeys := 2, keys := copy_keys (keys n) tmp 0 2\<rparr>\<rparr>,
                     \<lparr>pageID = 1, dirty = True,
                      data = zero_node\<lparr>isLeaf := True, numKeys := 2, keys := copy_keys (keys zero_node) tmp 2 2\<rparr>\<rparr>,
                     \<lparr>pageID = 2, dirty = True, data = root_image (tmp ! 2)\<rparr>],
             pageTable = [0 \<mapsto> 0, 1 \<mapsto> 1, 2 \<mapsto> 2], lru = [2, 1, 0], nextPageID = 3\<rparr>,
       rootPage = 2\<rparr>)"

definition single_leaf :: "BPlusTree \<Rightarrow> bool" where
  "single_leaf t \<longleftrightarrow> t = stA (data (pool (bm t) ! 0)) \<and>
     isLeaf (data (pool (bm t) ! 0)) \<and> node_wf (data (pool (bm t) ! 0))"

definition root_node :: "BPlusNode \<Rightarrow> bool" where
  "root_node n \<longleftrightarrow> \<not> isLeaf n \<and> numKeys n = 1 \<and> node_wf n \<and> take 2 (children n) = [0, 1]"

definition frame_shape :: "pid \<Rightarrow> Frame \<Rightarrow> bool" where
  "frame_shape nxt f \<longleftrightarrow> 0 \<le> pageID f \<and> pageID f < nxt \<and>
     (if pageID f = 2 then root_node (data f) else isLeaf (data f) \<and> node_wf (data f))"

definition two_level :: "BPlusTree \<Rightarrow> bool" where
  "two_level t \<longleftrightarrow> rootPage t = 2 \<and> 3 \<le> nextPageID (bm t) \<and> bm_inv (bm t) \<and>
     length (lru (bm t)) = BUFFER_CAPACITY \<and> failed (sm (bm t)) \<and> blocks (sm (bm t)) = [] \<and>
     pageTable (bm t) 2 \<noteq> None \<and> (\<forall>f \<in> set (pool (bm t)). frame_shape (nextPageID (bm t)) f)"

definition engine_shape :: "BPlusTree \<Rightarrow> bool" where
  "engine_shape t \<longleftrightarrow> single_leaf t \<or> two_level t"

text \<open>The manager of the single-leaf engine right after the split's allocation of page 1.\<close>

abbreviation stA_alloc_bm :: "BPlusNode \<Rightarrow> BufferManager" where
  "stA_alloc_bm n \<equiv> \<lparr>sm = \<lparr>blocks = [], failed = True\<rparr>,
      pool = [\<lparr>pageID = 0, dirty = True, data = n\<rparr>, \<lparr>pageID = 1, dirty = True, data = zero_node\<rparr>, empty_frame],
      pageTable = [0 \<mapsto> 0, 1 \<mapsto> 1], lru = [1, 0], nextPageID = 2\<rparr>"

section \<open>The single-leaf engine\<close>

lemma run_inserts_append:
  "run_inserts (xs @ ys) t = (case run_inserts xs t of None \<Rightarrow> None | Some t' \<Rightarrow> run_inserts ys t')"
  by (induction xs arbitrary: t) (auto split: option.split)

lemma engine_init_stA: "engine_init = stA (zero_node\<lparr>isLeaf := True, parentPage := -1\<rparr>)"
  by (simp add: engine_init_def BPlusTree_init_def BufferManager_init_def StorageManager_init_def
      allocatePage_def fetchPage_def evict_def readDisk_def page_offset_def PAGE_SIZE_def
      BUFFER_CAPACITY_def touch_def write_frame_def markDirty_def stA_def empty_frame_def zero_node_def
      MAX_KEYS_def numeral_3_eq_3)

lemma stA_insert_room:
  assumes "isLeaf n" and "numKeys n < int MAX_KEYS"
  shows "tree_insert k (stA n) = Some (stA (leaf_put k n))"
  using assms
  by (simp add: tree_insert_def stA_def findLeaf_steps fetchPage_def touch_def
      insertIntoLeaf_def markDirty_def write_frame_def)

lemma stA_insert_full:
  assumes "isLeaf n" and "\<not> numKeys n < int MAX_KEYS"
  shows "tree_insert k (stA n) = Some (splitLeaf 0 k (stA n))"
proof -
  have "fetchPage 0 (bm (stA n)) = (0, bm (stA n))"
    by (simp add: stA_def fetchPage_def touch_def)
  then show ?thesis using assms
    by (simp add: tree_insert_def findLeaf_steps insertIntoLeaf_def stA_def)
qed

lemma stA_alloc: "allocatePage (bm (stA n)) = (1, stA_alloc_bm n)"
  by (simp add: stA_def allocatePage_def fetchPage_def evict_def readDisk_def BUFFER_CAPACITY_def
      touch_def write_frame_def markDirty_def empty_frame_def)

text \<open>The two fetches and the stores of the root split.\<close>

lemma stA_split_fetch0: "fetchPage 0 (stA_alloc_bm n) = (0, (stA_alloc_bm n)\<lparr>lru := [0, 1]\<rparr>)"
  by (simp add: fetchPage_def touch_def)

lemma stA_split_fetch1: "fetchPage 1 ((stA_alloc_bm n)\<lparr>lru := [0, 1]\<rparr>) = (1, stA_alloc_bm n)"
  by (simp add: fetchPage_def touch_def)

lemma stA_split_writes:
  "split_writes 0 1 0 1 k (stA_alloc_bm n) =
     (let tmp = split_tmp n k in
      (stA_alloc_bm n)\<lparr>pool := [\<lparr>pageID = 0, dirty = True,
                      data = n\<lparr>numKeys := 2, keys := copy_keys (keys n) tmp 0 2\<rparr>\<rparr>,
                     \<lparr>pageID = 1, dirty = True,
                      data = zero_node\<lparr>isLeaf := True, numKeys := 2, keys := copy_keys (keys zero_node) tmp 2 2\<rparr>\<rparr>,
                     empty_frame]\<rparr>)"
  by (subst split_writes_eq) (simp_all add: Let_def)

lemma stA_parent:
  "insertIntoParent 0 key 1 \<lparr>bm = \<lparr>sm = \<lparr>blocks = [], failed = True\<rparr>, pool = [f0, f1, empty_frame],
       pageTable = [0 \<mapsto> 0, 1 \<mapsto> Suc 0], lru = [Suc 0, 0], nextPageID = 2\<rparr>, rootPage = 0\<rparr> =
   \<lparr>bm = \<lparr>sm = \<lparr>blocks = [], failed = True\<rparr>,
       pool = [f0, f1, \<lparr>pageID = 2, dirty = True, data = root_image key\<rparr>],
       pageTable = [0 \<mapsto> 0, 1 \<mapsto> Suc 0, 2 \<mapsto> Suc (Suc 0)], lru = [Suc (Suc 0), Suc 0, 0],
       nextPageID = 3\<rparr>, rootPage = 2\<rparr>"
  by (simp add: insertIntoParent_def allocatePage_def fetchPage_def evict_def readDisk_def
      BUFFER_CAPACITY_def touch_def write_frame_def markDirty_def empty_frame_def root_image_def
      numeral_2_eq_2)

lemma stA_splitLeaf:
  "splitLeaf 0 k (stA n) = stA_split n k"
proof -
  have upd: "(stA n)\<lparr>bm := b\<rparr> = \<lparr>bm = b, rootPage = 0\<rparr>" for b by (simp add: stA_def)
  show ?thesis
    unfolding splitLeaf_def stA_alloc prod.case stA_split_fetch0 stA_split_fetch1 stA_split_writes Let_def upd
    by (simp add: stA_parent stA_split_def numeral_2_eq_2 MAX_KEYS_def Let_def)
qed

lemma single_leaf_stA [simp]: "single_leaf (stA n) \<longleftrightarrow> isLeaf n \<and> node_wf n"
  by (simp add: single_leaf_def stA_def)

section \<open>The two-level engine\<close>

lemma two_level_frame:
  "two_level t \<Longrightarrow> j < length (pool (bm t)) \<Longrightarrow> frame_shape (nextPageID (bm t)) (pool (bm t) ! j)"
  by (simp add: two_level_def)

lemma two_level_root:
  assumes "two_level t"
  obtains r where "pageTable (bm t) 2 = Some r" "r \<in> set (lru (bm t))" "r < length (pool (bm t))"
    "pageID (pool (bm t) ! r) = 2" "root_node (data (pool (bm t) ! r))"
proof -
  from assms obtain r where r: "pageTable (bm t) 2 = Some r" by (auto simp: two_level_def)
  with assms have in_lru: "r \<in> set (lru (bm t))" and pid: "pageID (pool (bm t) ! r) = 2"
    using frames_ok_iff [of "bm t" 2 r] by (auto simp: two_level_def bm_inv_def)
  have lt: "r < length (pool (bm t))"
    using assms in_lru lru_shape_nth_lt [of "lru (bm t)" r] by (auto simp: two_level_def bm_inv_def frames_ok_def)
  from two_level_frame [OF assms lt] pid have "root_node (data (pool (bm t) ! r))"
    by (simp add: frame_shape_def)
  with r in_lru lt pid show ?thesis by (rule that)
qed

lemma two_level_touch:
  assumes tl: "two_level t" and i: "i \<in> set (lru (bm t))"
  shows "two_level (t\<lparr>bm := touch i (bm t)\<rparr>)"
proof -
  have "bm_inv (touch i (bm t))"
    using tl i lru_shape_touch [of "lru (bm t)" i]
    by (auto simp: two_level_def bm_inv_def frames_ok_def touch_def)
  moreover have "length (lru (touch i (bm t))) = length (lru (bm t))"
    using tl i by (auto simp: two_level_def bm_inv_def lru_shape_def touch_def distinct_length_removeAll
        dest: length_pos_if_in_set)
  ultimately show ?thesis using tl by (simp add: two_level_def touch_def)
qed

lemma two_level_update:
  assumes tl: "two_level t" and j: "j < length (pool (bm t))"
    and pid: "pageID f = pageID (pool (bm t) ! j)" and fs: "frame_shape (nextPageID (bm t)) f"
  shows "two_level (t\<lparr>bm := (bm t)\<lparr>pool := (pool (bm t))[j := f]\<rparr>\<rparr>)"
proof -
  have "bm_inv ((bm t)\<lparr>pool := (pool (bm t))[j := f]\<rparr>)"
    using tl pid bm_inv_frame_update [of "bm t" f j] by (simp add: two_level_def)
  moreover have "\<forall>g \<in> set ((pool (bm t))[j := f]). frame_shape (nextPageID (bm t)) g"
    using tl fs set_update_subset_insert [of "pool (bm t)" j f] by (auto simp: two_level_def)
  ultimately show ?thesis using tl by (simp add: two_level_def)
qed

lemma two_level_next:
  "two_level t \<Longrightarrow> two_level (t\<lparr>bm := (bm t)\<lparr>nextPageID := nextPageID (bm t) + 1\<rparr>\<rparr>)"
  by (auto simp: two_level_def frame_shape_def)

lemma two_level_miss:
  assumes tl: "two_level t" and miss: "pageTable (bm t) c = None"
    and c: "0 \<le> c" "c < nextPageID (bm t)" "c \<noteq> 2"
    and notroot: "pageTable (bm t) 2 \<noteq> Some (last (lru (bm t)))"
  shows "two_level (t\<lparr>bm := snd (fetchPage c (bm t))\<rparr>)"
proof -
  let ?b = "bm t" and ?v = "last (lru (bm t))"
  have inv: "bm_inv ?b" and full: "length (lru ?b) = BUFFER_CAPACITY" and fl: "failed (sm ?b)"
    using tl by (simp_all add: two_level_def)
  have ne: "lru ?b \<noteq> []" using full by auto
  have vin: "?v \<in> set (lru ?b)" using ne by simp
  have vlt: "?v < length (pool ?b)"
    using inv vin lru_shape_nth_lt [of "lru ?b" ?v] by (simp add: bm_inv_def frames_ok_def)
  have pidv: "pageID (pool ?b ! ?v) \<noteq> 2"
    using notroot inv vin frames_ok_iff [of ?b 2 ?v] by (auto simp: bm_inv_def)
  have old: "isLeaf (data (pool ?b ! ?v)) \<and> node_wf (data (pool ?b ! ?v))"
    using two_level_frame [OF tl vlt] pidv by (simp add: frame_shape_def)
  let ?f = "(pool ?b ! ?v)\<lparr>pageID := c, dirty := False\<rparr>"
  let ?b1 = "?b\<lparr>lru := butlast (lru ?b), pool := (pool ?b)[?v := ?f],
          pageTable := ((pageTable ?b)(pageID (pool ?b ! ?v) := None))(c \<mapsto> ?v)\<rparr>"
  have fp: "fetchPage c ?b = (?v, touch ?v ?b1)"
    using fetchPage_miss_full_failed [OF fl miss full] .
  have "bm_inv (touch ?v ?b1)" using fetchPage_inv [OF inv fp] .
  moreover have "length (lru (touch ?v ?b1)) = BUFFER_CAPACITY"
  proof -
    have "?v \<notin> set (butlast (lru ?b))"
      using inv ne by (auto simp: bm_inv_def lru_shape_def distinct_set_butlast)
    then show ?thesis using full ne by (simp add: touch_def)
  qed
  moreover have "pageTable (touch ?v ?b1) 2 \<noteq> None"
    using tl pidv c(3) by (simp add: touch_def two_level_def)
  moreover have "\<forall>g \<in> set (pool (touch ?v ?b1)). frame_shape (nextPageID ?b) g"
  proof -
    have "frame_shape (nextPageID ?b) ?f" using old c by (simp add: frame_shape_def)
    then show ?thesis using tl set_update_subset_insert [of "pool ?b" ?v ?f]
      by (auto simp: touch_def two_level_def)
  qed
  ultimately show ?thesis using tl fp by (simp add: two_level_def touch_def)
qed

lemma root_node_route:
  assumes "root_node n"
  obtains j where "scan_keys (keys n) (numKeys n) k 0 = Some j" "j < length (children n)"
    "children n ! j = 0 \<or> children n ! j = 1"
proof -
  from assms have wf: "node_wf n" and nk: "numKeys n = 1" and ch: "take 2 (children n) = [0, 1]"
    by (simp_all add: root_node_def)
  let ?j = "length (takeWhile (\<lambda>x. x \<le> k) (take (nat (numKeys n)) (keys n)))"
  have sc: "scan_keys (keys n) (numKeys n) k 0 = Some ?j"
    using scan_keys_from [of "numKeys n" "keys n" 0 k] wf nk by (simp add: node_wf_def MAX_KEYS_def)
  have jle: "?j \<le> 1" using nk by (simp add: length_takeWhile_le [THEN order_trans])
  have lc: "length (children n) = 4" using wf by (simp add: node_wf_def MAX_KEYS_def)
  have "children n ! ?j = take 2 (children n) ! ?j" using jle by simp
  then have "children n ! ?j = 0 \<or> children n ! ?j = 1"
    using jle ch by (cases ?j) auto
  with sc jle lc show ?thesis by (intro that) auto
qed

lemma two_level_findLeaf:
  assumes tl: "two_level t"
  shows "\<exists>c b2 m r. findLeaf 2 k (bm t) = Some (c, b2) \<and> two_level (t\<lparr>bm := b2\<rparr>) \<and>
     (c = 0 \<or> c = 1) \<and> pageTable b2 c = Some m \<and> pageTable b2 2 = Some r \<and> take 2 (lru b2) = [m, r]"
proof -
  let ?b = "bm t"
  obtain r where r: "pageTable ?b 2 = Some r" "r \<in> set (lru ?b)" "r < length (pool ?b)"
    "pageID (pool ?b ! r) = 2" "root_node (data (pool ?b ! r))"
    using two_level_root [OF tl] by blast
  let ?b1 = "touch r ?b"
  have tl1: "two_level (t\<lparr>bm := ?b1\<rparr>)" using two_level_touch [OF tl r(2)] .
  have p1: "pool ?b1 = pool ?b" and pt1: "pageTable ?b1 = pageTable ?b" by (simp_all add: touch_def)
  have l1: "lru ?b1 = r # removeAll r (lru ?b)" by (simp add: touch_def)
  have notleaf: "\<not> isLeaf (data (pool ?b ! r))" using r(5) by (simp add: root_node_def)
  obtain j where j: "scan_keys (keys (data (pool ?b ! r))) (numKeys (data (pool ?b ! r))) k 0 = Some j"
    "j < length (children (data (pool ?b ! r)))"
    "children (data (pool ?b ! r)) ! j = 0 \<or> children (data (pool ?b ! r)) ! j = 1"
    using root_node_route [OF r(5)] by blast
  let ?c = "children (data (pool ?b ! r)) ! j"
  have step: "findLeaf 2 k ?b = findLeaf ?c k ?b1"
    using j notleaf r(1) by (simp add: findLeaf_steps fetchPage_hit p1)
  have c2: "?c \<noteq> 2" and c0: "0 \<le> ?c" and cn: "?c < nextPageID ?b"
    using j(3) tl by (auto simp: two_level_def)
  have inv1: "bm_inv ?b1" and full1: "length (lru ?b1) = BUFFER_CAPACITY"
    using tl1 by (simp_all add: two_level_def)
  show ?thesis
  proof (cases "pageTable ?b1 ?c")
    case (Some m)
    have m: "m \<in> set (lru ?b1)" "pageID (pool ?b1 ! m) = ?c"
      using Some inv1 frames_ok_iff [of ?b1 ?c m] by (auto simp: bm_inv_def)
    have mlt: "m < length (pool ?b1)"
      using inv1 m(1) lru_shape_nth_lt [of "lru ?b1" m] by (simp add: bm_inv_def frames_ok_def)
    have leaf: "isLeaf (data (pool ?b1 ! m))"
      using two_level_frame [OF tl1, of m] mlt m(2) c2 by (simp add: frame_shape_def)
    have mr: "m \<noteq> r" using m(2) r(4) c2 p1 by auto
    have fl: "findLeaf ?c k ?b1 = Some (?c, touch m ?b1)"
      using Some leaf by (subst findLeaf.simps) (simp add: fetchPage_hit pt1 p1)
    have "take 2 (lru (touch m ?b1)) = [m, r]" using mr l1 by (simp add: touch_def)
    moreover have "two_level (t\<lparr>bm := touch m ?b1\<rparr>)"
      using two_level_touch [OF tl1, of m] m(1) by simp
    ultimately show ?thesis using step fl Some r(1) j(3) by (auto simp: touch_def pt1)
  next
    case None
    let ?v = "last (lru ?b1)"
    have dl: "distinct (lru ?b1)" using inv1 by (simp add: bm_inv_def lru_shape_def)
    have rest: "removeAll r (lru ?b) \<noteq> []"
      using full1 l1 by (auto simp: BUFFER_CAPACITY_def)
    have vr: "?v \<noteq> r" using rest l1 last_in_set [OF rest] by auto
    have notroot: "pageTable ?b1 2 \<noteq> Some ?v" using r(1) vr pt1 by simp
    have tl2: "two_level (t\<lparr>bm := snd (fetchPage ?c ?b1)\<rparr>)"
      using two_level_miss [of "t\<lparr>bm := ?b1\<rparr>" ?c] tl1 None c0 cn c2 notroot by (simp add: touch_def)
    let ?f = "(pool ?b1 ! ?v)\<lparr>pageID := ?c, dirty := False\<rparr>"
    let ?b2 = "touch ?v (?b1\<lparr>lru := butlast (lru ?b1), pool := (pool ?b1)[?v := ?f],
          pageTable := ((pageTable ?b1)(pageID (pool ?b1 ! ?v) := None))(?c \<mapsto> ?v)\<rparr>)"
    have fl1: "failed (sm ?b1)" using tl1 by (simp add: two_level_def)
    have fp: "fetchPage ?c ?b1 = (?v, ?b2)"
      using fetchPage_miss_full_failed [OF fl1 None full1] .
    have vin: "?v \<in> set (lru ?b1)" by (rule last_in_set) (simp add: l1)
    have vlt: "?v < length (pool ?b1)"
      using inv1 vin lru_shape_nth_lt [of "lru ?b1" ?v] by (simp add: bm_inv_def frames_ok_def)
    have pidv: "pageID (pool ?b1 ! ?v) \<noteq> 2"
      using notroot inv1 vin frames_ok_iff [of ?b1 2 ?v] by (auto simp: bm_inv_def)
    have leaf: "isLeaf (data (pool ?b1 ! ?v))"
      using two_level_frame [OF tl1, of ?v] vlt pidv by (simp add: frame_shape_def)
    have fl: "findLeaf ?c k ?b1 = Some (?c, ?b2)"
      using fp leaf vlt by (subst findLeaf.simps) (simp add: touch_def)
    have ne1: "lru ?b1 \<noteq> []" by (simp add: l1)
    have "?v \<notin> set (butlast (lru ?b1))" using distinct_set_butlast [OF dl ne1] by blast
    then have "take 2 (lru ?b2) = [?v, r]" using vr l1 rest by (simp add: touch_def)
    moreover have "pageTable ?b2 ?c = Some ?v" and "pageTable ?b2 2 = Some r"
      using pidv c2 r(1) pt1 by (simp_all add: touch_def)
    ultimately show ?thesis using step fl tl2 fp j(3) by auto
  qed
qed

lemma two_level_fresh:
  assumes tl: "two_level t"
  shows "pageTable (bm t) (nextPageID (bm t)) = None"
proof (rule ccontr)
  assume "pageTable (bm t) (nextPageID (bm t)) \<noteq> None"
  then obtain i where i: "pageTable (bm t) (nextPageID (bm t)) = Some i" by blast
  have inv: "bm_inv (bm t)" using tl by (simp add: two_level_def)
  then have "i \<in> set (lru (bm t))" and pid: "pageID (pool (bm t) ! i) = nextPageID (bm t)"
    using i frames_ok_iff [of "bm t" "nextPageID (bm t)" i] by (auto simp: bm_inv_def)
  then have "i < length (pool (bm t))"
    using inv lru_shape_nth_lt [of "lru (bm t)" i] by (simp add: bm_inv_def frames_ok_def)
  then show False using two_level_frame [OF tl] pid by (fastforce simp: frame_shape_def)
qed

lemma frame_shape_mono:
  "frame_shape n f \<Longrightarrow> n \<le> n' \<Longrightarrow> frame_shape n' f"
  by (auto simp: frame_shape_def)

lemma two_level_split:
  assumes tl: "two_level t" and c: "pageTable (bm t) c = Some m" and l: "lru (bm t) = [m, r, x]"
    and r: "pageTable (bm t) 2 = Some r"
  shows "two_level (splitLeaf c k t)"
proof -
  let ?b = "bm t" and ?p = "nextPageID (bm t)"
  let ?tmp = "split_tmp (data (pool ?b ! m)) k"
  let ?fx = "(pool ?b ! x)\<lparr>pageID := ?p,
     data := zero_node\<lparr>isLeaf := True, numKeys := 2, keys := copy_keys (keys zero_node) ?tmp 2 2\<rparr>,
     dirty := True\<rparr>"
  let ?fm = "(pool ?b ! m)\<lparr>data := (data (pool ?b ! m))\<lparr>numKeys := 2,
     keys := copy_keys (keys (data (pool ?b ! m))) ?tmp 0 2\<rparr>, dirty := True\<rparr>"
  have inv: "bm_inv ?b" and fl: "failed (sm ?b)" and rt: "rootPage t = 2"
    using tl by (simp_all add: two_level_def)
  have d: "distinct [m, r, x]" using inv l by (simp add: bm_inv_def lru_shape_def)
  have xs: "x \<in> set (lru ?b)" "m \<in> set (lru ?b)" using l by simp_all
  have c2: "c \<noteq> 2" using c r d by auto
  have lt: "m < length (pool ?b)" "x < length (pool ?b)"
    using inv xs lru_shape_nth_lt [of "lru ?b"] by (auto simp: bm_inv_def frames_ok_def)
  have pm: "pageID (pool ?b ! m) = c" using c frames_ok_iff [of ?b c m] inv by (simp add: bm_inv_def)
  have px: "pageID (pool ?b ! x) \<noteq> 2" using r d xs frames_ok_iff [of ?b 2 x] inv
    by (auto simp: bm_inv_def)
  have fresh: "pageTable ?b ?p = None" using two_level_fresh [OF tl] .
  have eq: "splitLeaf c k t = t\<lparr>bm := ?b\<lparr>nextPageID := ?p + 1,
     pageTable := ((pageTable ?b)(pageID (pool ?b ! x) := None))(?p \<mapsto> x),
     lru := [x, m, r], pool := (pool ?b)[x := ?fx, m := ?fm]\<rparr>\<rparr>"
    using splitLeaf_full [OF inv fl l c fresh] c2 rt by simp
  have inv': "bm_inv (bm (splitLeaf c k t))" using splitLeaf_inv [OF inv] c2 rt by simp
  have om: "isLeaf (data (pool ?b ! m)) \<and> node_wf (data (pool ?b ! m))"
    using two_level_frame [OF tl lt(1)] pm c2 by (simp add: frame_shape_def)
  have halves: "node_wf (data ?fm) \<and> node_wf (data ?fx)"
    using split_halves [of "data (pool ?b ! m)" zero_node k] om
    by (simp add: split_tmp_def MAX_KEYS_def)
  have p3: "3 \<le> ?p" using tl by (simp add: two_level_def)
  have old: "frame_shape (?p + 1) f" if "f \<in> set (pool ?b)" for f
    using tl that frame_shape_mono by (fastforce simp: two_level_def)
  have fm: "frame_shape (?p + 1) ?fm"
    using halves om pm c2 old [OF nth_mem [OF lt(1)]] by (simp add: frame_shape_def)
  have fx: "frame_shape (?p + 1) ?fx"
    using halves p3 by (simp add: frame_shape_def)
  have pool': "pool (bm (splitLeaf c k t)) = (pool ?b)[x := ?fx, m := ?fm]"
    and nxt': "nextPageID (bm (splitLeaf c k t)) = ?p + 1"
    by (simp_all add: eq)
  have "\<forall>f \<in> set (pool (bm (splitLeaf c k t))). frame_shape (nextPageID (bm (splitLeaf c k t))) f"
  proof
    fix f assume "f \<in> set (pool (bm (splitLeaf c k t)))"
    then have "f = ?fm \<or> f = ?fx \<or> f \<in> set (pool ?b)"
      using set_update2_subset [of "pool ?b" x ?fx m ?fm] unfolding pool' by blast
    then show "frame_shape (nextPageID (bm (splitLeaf c k t))) f"
      using fm fx old unfolding nxt' by blast
  qed
  moreover have "pageTable (bm (splitLeaf c k t)) 2 \<noteq> None" using px p3 r by (simp add: eq)
  moreover have "length (lru (bm (splitLeaf c k t))) = BUFFER_CAPACITY"
    and "failed (sm (bm (splitLeaf c k t)))" and "blocks (sm (bm (splitLeaf c k t))) = []"
    and "rootPage (splitLeaf c k t) = 2"
    using tl by (simp_all add: eq two_level_def BUFFER_CAPACITY_def)
  ultimately show ?thesis using inv' p3 nxt' by (simp add: two_level_def)
qed

lemma lru_three:
  "length xs = 3 \<Longrightarrow> take 2 xs = [a, b] \<Longrightarrow> \<exists>x. xs = [a, b, x]"
  by (cases xs rule: rev_cases) (auto simp: take_append)

lemma two_level_leaf_put:
  assumes tl: "two_level t" and c: "pageTable (bm t) c = Some m" and c2: "c \<noteq> 2"
    and room: "numKeys (data (pool (bm t) ! m)) < int MAX_KEYS"
  shows "two_level (t\<lparr>bm := markDirty c (write_frame m (leaf_put k) (bm t))\<rparr>)"
proof -
  let ?b = "bm t"
  have inv: "bm_inv ?b" using tl by (simp add: two_level_def)
  have mi: "m \<in> set (lru ?b)" and pm: "pageID (pool ?b ! m) = c"
    using c frames_ok_iff [of ?b c m] inv by (simp_all add: bm_inv_def)
  have lt: "m < length (pool ?b)"
    using inv mi lru_shape_nth_lt [of "lru ?b"] by (auto simp: bm_inv_def frames_ok_def)
  have fs: "frame_shape (nextPageID ?b) (pool ?b ! m)" using two_level_frame [OF tl lt] .
  have om: "isLeaf (data (pool ?b ! m)) \<and> node_wf (data (pool ?b ! m))"
    using fs pm c2 by (simp add: frame_shape_def)
  have "frame_shape (nextPageID ?b) ((pool ?b ! m)\<lparr>data := leaf_put k (data (pool ?b ! m)), dirty := True\<rparr>)"
    using fs pm c2 om leaf_put_wf_keys [of "data (pool ?b ! m)" k] room by (simp add: frame_shape_def)
  moreover have "markDirty c (write_frame m (leaf_put k) ?b) =
      ?b\<lparr>pool := (pool ?b)[m := (pool ?b ! m)\<lparr>data := leaf_put k (data (pool ?b ! m)), dirty := True\<rparr>]\<rparr>"
    using c lt by (simp add: markDirty_def write_frame_def)
  ultimately show ?thesis using two_level_update [OF tl lt] by simp
qed

text \<open>An insert on the two-level engine, unfolded: the descent ends at leaf page
  \<open>c\<close> (page 0 or 1) in frame \<open>m\<close>, at the front of the recency list before the root's
  frame \<open>r\<close> and the least recent frame \<open>x\<close>; the leaf takes the key in place when it
  has room and is split otherwise.\<close>

lemma two_level_insert_form:
  assumes tl: "two_level t"
  obtains c b2 m r x where "findLeaf 2 k (bm t) = Some (c, b2)" and "two_level (t\<lparr>bm := b2\<rparr>)"
    and "c = 0 \<or> c = 1" and "pageTable b2 c = Some m" and "pageTable b2 2 = Some r" and "lru b2 = [m, r, x]"
    and "tree_insert k t = Some (if numKeys (data (pool b2 ! m)) < int MAX_KEYS
           then t\<lparr>bm := markDirty c (write_frame m (leaf_put k) b2)\<rparr> else splitLeaf c k (t\<lparr>bm := b2\<rparr>))"
proof -
  obtain c b2 m r where fl: "findLeaf 2 k (bm t) = Some (c, b2)" and tl2: "two_level (t\<lparr>bm := b2\<rparr>)"
    and c01: "c = 0 \<or> c = 1" and c: "pageTable b2 c = Some m" and r: "pageTable b2 2 = Some r"
    and tk: "take 2 (lru b2) = [m, r]"
    using two_level_findLeaf [OF tl] by blast
  have rt: "rootPage t = 2" using tl by (simp add: two_level_def)
  have inv2: "bm_inv b2" and len2: "length (lru b2) = BUFFER_CAPACITY"
    using tl2 by (simp_all add: two_level_def)
  have "length (lru b2) = 3" using len2 by (simp add: BUFFER_CAPACITY_def)
  then obtain x where l: "lru b2 = [m, r, x]" using lru_three [OF _ tk] by blast
  have d: "distinct [m, r, x]" using inv2 l by (simp add: bm_inv_def lru_shape_def)
  have tm: "touch m b2 = b2" using l d by (simp add: touch_def)
  have fp: "fetchPage c b2 = (m, b2)" using fetchPage_hit [OF c] tm by simp
  have "tree_insert k t = Some (insertIntoLeaf c k (t\<lparr>bm := b2\<rparr>))"
    using fl rt by (simp add: tree_insert_def)
  also have "insertIntoLeaf c k (t\<lparr>bm := b2\<rparr>) =
     (if numKeys (data (pool b2 ! m)) < int MAX_KEYS
      then t\<lparr>bm := markDirty c (write_frame m (leaf_put k) b2)\<rparr> else splitLeaf c k (t\<lparr>bm := b2\<rparr>))"
    unfolding insertIntoLeaf_def by (simp add: fp)
  finally have ti: "tree_insert k t = Some (if numKeys (data (pool b2 ! m)) < int MAX_KEYS
      then t\<lparr>bm := markDirty c (write_frame m (leaf_put k) b2)\<rparr> else splitLeaf c k (t\<lparr>bm := b2\<rparr>))" .
  show ?thesis by (rule that [OF fl tl2 c01 c r l ti])
qed

lemma two_level_insert:
  assumes tl: "two_level t"
  shows "\<exists>t'. tree_insert k t = Some t' \<and> two_level t'"
proof -
  obtain c b2 m r x where "findLeaf 2 k (bm t) = Some (c, b2)" and tl2: "two_level (t\<lparr>bm := b2\<rparr>)"
    and c01: "c = 0 \<or> c = 1" and c: "pageTable b2 c = Some m" and r: "pageTable b2 2 = Some r"
    and l: "lru b2 = [m, r, x]"
    and ti: "tree_insert k t = Some (if numKeys (data (pool b2 ! m)) < int MAX_KEYS
           then t\<lparr>bm := markDirty c (write_frame m (leaf_put k) b2)\<rparr> else splitLeaf c k (t\<lparr>bm := b2\<rparr>))"
    by (rule two_level_insert_form [OF tl, of k])
  have c2: "c \<noteq> 2" using c01 by auto
  show ?thesis
  proof (cases "numKeys (data (pool b2 ! m)) < int MAX_KEYS")
    case True
    then show ?thesis using ti two_level_leaf_put [of "t\<lparr>bm := b2\<rparr>" c m k] tl2 c c2 by simp
  next
    case False
    then show ?thesis using ti two_level_split [of "t\<lparr>bm := b2\<rparr>" c m r x k] tl2 c l r by simp
  qed
qed

section \<open>Every insert leads from a shape to a shape\<close>

lemma root_image_node: "root_node (root_image key)"
  by (simp add: root_node_def root_image_def node_wf_def node_keys_def zero_node_def MAX_KEYS_def
      eval_nat_numeral)

lemma stA_split_two_level:
  assumes lf: "isLeaf n" and wf: "node_wf n"
  shows "two_level (stA_split n k)"
proof -
  have h: "node_wf (n\<lparr>numKeys := 2, keys := copy_keys (keys n) (split_tmp n k) 0 2\<rparr>) \<and>
      node_wf (zero_node\<lparr>isLeaf := True, numKeys := 2, keys := copy_keys (keys zero_node) (split_tmp n k) 2 2\<rparr>)"
    using split_halves [of n zero_node k] lf wf by (simp add: MAX_KEYS_def)
  have fo: "frames_ok (bm (stA_split n k))"
    unfolding frames_ok_def
  proof (intro conjI allI)
    fix p i
    show "pageTable (bm (stA_split n k)) p = Some i \<longleftrightarrow>
          i \<in> set (lru (bm (stA_split n k))) \<and> pageID (pool (bm (stA_split n k)) ! i) = p"
      by (auto simp: stA_split_def Let_def nth_Cons' split: if_splits)
  qed (simp add: stA_split_def Let_def BUFFER_CAPACITY_def)
  have "lru_shape (lru (bm (stA_split n k)))"
    by (auto simp: stA_split_def Let_def lru_shape_def BUFFER_CAPACITY_def)
  with fo have "bm_inv (bm (stA_split n k))" by (simp add: bm_inv_def)
  then show ?thesis
    using h lf root_image_node by (simp add: two_level_def stA_split_def Let_def frame_shape_def BUFFER_CAPACITY_def)
qed

text \<open>One insert on either shape returns, and its result has one of the shapes.\<close>

lemma engine_shape_step:
  assumes "engine_shape t"
  shows "\<exists>t'. tree_insert k t = Some t' \<and> engine_shape t'"
proof (cases "single_leaf t")
  case True
  let ?n = "data (pool (bm t) ! 0)"
  have t: "t = stA ?n" and lf: "isLeaf ?n" and wf: "node_wf ?n"
    using True by (simp_all add: single_leaf_def)
  show ?thesis
  proof (cases "numKeys ?n < int MAX_KEYS")
    case True
    have "single_leaf (stA (leaf_put k ?n))" using leaf_put_wf_keys [OF wf lf True] by simp
    then show ?thesis using stA_insert_room [OF lf True, of k] t by (metis engine_shape_def)
  next
    case False
    have "two_level (stA_split ?n k)" using stA_split_two_level [OF lf wf] .
    then show ?thesis using stA_insert_full [OF lf False, of k] stA_splitLeaf t
      by (metis engine_shape_def)
  qed
next
  case False
  then have "two_level t" using assms by (simp add: engine_shape_def)
  then show ?thesis using two_level_insert engine_shape_def by blast
qed

lemma engine_init_shape: "engine_shape engine_init"
  by (simp add: engine_init_stA engine_shape_def node_wf_def node_keys_def zero_node_def MAX_KEYS_def)

text \<open>The invariant of the engine, by rule induction on \<open>reachable\<close>.\<close>

lemma reachable_shape: "reachable t \<Longrightarrow> engine_shape t"
proof (induction rule: reachable.induct)
  case init
  then show ?case by (rule engine_init_shape)
next
  case (step t k t')
  then show ?case using engine_shape_step [OF step.IH, of k] by auto
qed

lemma run_inserts_reachable:
  "reachable t \<Longrightarrow> \<exists>t'. run_inserts ks t = Some t' \<and> reachable t'"
proof (induction ks arbitrary: t)
  case Nil
  then show ?case by simp
next
  case (Cons k ks)
  obtain t1 where "tree_insert k t = Some t1"
    using engine_shape_step [OF reachable_shape [OF Cons.prems], of k] by blast
  moreover have "reachable t1" using Cons.prems calculation by (rule reachable.step)
  ultimately show ?case using Cons.IH by simp
qed

lemma stA_disk: "failed (sm (bm (stA n))) \<and> blocks (sm (bm (stA n))) = []"
  by (simp add: stA_def)

lemma engine_shape_disk:
  assumes "engine_shape t"
  shows "failed (sm (bm t)) \<and> blocks (sm (bm t)) = []"
proof (cases "single_leaf t")
  case True
  then show ?thesis by (metis single_leaf_def stA_disk)
next
  case False
  then show ?thesis using assms by (simp add: engine_shape_def two_level_def)
qed

section \<open>What the shapes give\<close>

lemma engine_shape_cases [consumes 1, case_names single two]:
  assumes "engine_shape t"
    and "\<And>n. t = stA n \<Longrightarrow> isLeaf n \<Longrightarrow> node_wf n \<Longrightarrow> P"
    and "two_level t \<Longrightarrow> P"
  shows P
  using assms unfolding engine_shape_def single_leaf_def by blast

lemma stA_inv: "bm_inv (bm (stA n))"
  by (auto simp: stA_def bm_inv_def lru_shape_def frames_ok_def BUFFER_CAPACITY_def)

lemma two_level_resident:
  assumes tl: "two_level t" and i: "i \<in> set (lru (bm t))"
  shows "frame_shape (nextPageID (bm t)) (pool (bm t) ! i)"
proof -
  have "bm_inv (bm t)" using tl by (simp add: two_level_def)
  then have "i < length (pool (bm t))"
    using i lru_shape_nth_lt [of "lru (bm t)" i] by (simp add: bm_inv_def frames_ok_def)
  then show ?thesis by (rule two_level_frame [OF tl])
qed

lemma engine_shape_inv: "engine_shape t \<Longrightarrow> bm_inv (bm t)"
  by (erule engine_shape_cases) (simp_all add: stA_inv two_level_def)

text \<open>Every resident frame holds a well-formed node whose page id was allocated.\<close>

lemma engine_shape_resident:
  assumes "engine_shape t" and "i \<in> set (lru (bm t))"
  shows "node_wf (data (pool (bm t) ! i)) \<and> 0 \<le> pageID (pool (bm t) ! i) \<and>
         pageID (pool (bm t) ! i) < nextPageID (bm t)"
  using assms(1)
proof (cases rule: engine_shape_cases)
  case (single n)
  then show ?thesis using assms(2) by (simp add: stA_def)
next
  case two
  then show ?thesis using two_level_resident [OF two assms(2)]
    by (auto simp: frame_shape_def root_node_def split: if_splits)
qed

text \<open>The root is resident, and it is a leaf or an internal node with one key over
  pages 0 and 1.\<close>

lemma engine_shape_root:
  assumes "engine_shape t"
  shows "\<exists>i. pageTable (bm t) (rootPage t) = Some i \<and>
     (isLeaf (data (pool (bm t) ! i)) \<or> root_node (data (pool (bm t) ! i)))"
  using assms
proof (cases rule: engine_shape_cases)
  case (single n)
  then show ?thesis by (simp add: stA_def)
next
  case two
  then show ?thesis using two_level_root [OF two] two by (metis two_level_def)
qed

text \<open>The descent of \<^verbatim>\<open>findLeaf\<close> returns a leaf page of the tree.\<close>

lemma engine_shape_findLeaf:
  assumes "engine_shape t"
  shows "\<exists>c b'. findLeaf (rootPage t) k (bm t) = Some (c, b') \<and> (c = rootPage t \<or> c = 0 \<or> c = 1)"
  using assms
proof (cases rule: engine_shape_cases)
  case (single n)
  then show ?thesis
    by (simp add: stA_def findLeaf_steps fetchPage_def touch_def)
next
  case two
  then show ?thesis using two_level_findLeaf [OF two, of k] by (auto simp: two_level_def)
qed

text \<open>The next page id is never resident, so \<^verbatim>\<open>allocatePage\<close> always misses.\<close>

lemma engine_shape_fresh:
  assumes "engine_shape t"
  shows "pageTable (bm t) (nextPageID (bm t)) = None"
proof (rule ccontr)
  assume "pageTable (bm t) (nextPageID (bm t)) \<noteq> None"
  then obtain i where i: "pageTable (bm t) (nextPageID (bm t)) = Some i" by blast
  have "i \<in> set (lru (bm t))" and "pageID (pool (bm t) ! i) = nextPageID (bm t)"
    using i engine_shape_inv [OF assms] frames_ok_iff [of "bm t" "nextPageID (bm t)" i]
    by (auto simp: bm_inv_def)
  then show False using engine_shape_resident [OF assms] by fastforce
qed

lemma reachable_run:
  "run_inserts ks engine_init = Some t \<Longrightarrow> reachable t"
  using run_inserts_reachable [OF reachable.init, of ks] by auto

end
