(* ===== verification/Scenario.thy ===== *)
theory Scenario
  imports Engine
begin

text \<open>
  The demonstration of \<^verbatim>\<open>main\<close> (main.cpp, lines 14--18) and what follows it, run
  on the model. The contents of the index are read through an abstraction,
  \<open>index_keys\<close>: the keys of the leaves reachable from the root, each page read
  from its frame when it is resident and from the file otherwise. The engine never
  grows past two levels (\<open>Engine\<close>), so the root and its children are all the
  pages the index can reach.
  The runs are computed one insert at a time: the three inserts into the first
  leaf by \<open>stA_insert_room\<close>, the root split by \<open>stA_splitLeaf\<close>, the split of a
  leaf below the root by \<open>splitLeaf_full\<close>, every other insert by unfolding the
  operations on the concrete state.
\<close>

definition demo_keys :: "int list" where
  "demo_keys = [10, 20, 30, 40, 50]"

text \<open>The node a page holds, as the index would read it.\<close>

definition page_image :: "BPlusTree \<Rightarrow> pid \<Rightarrow> BPlusNode option" where
  "page_image t p =
     (case pageTable (bm t) p of
        Some i \<Rightarrow> Some (data (pool (bm t) ! i))
      | None \<Rightarrow> if 0 \<le> p \<and> nat p < length (blocks (sm (bm t)))
                then Some (blocks (sm (bm t)) ! nat p) else None)"

definition leaf_keys :: "BPlusNode option \<Rightarrow> int list" where
  "leaf_keys n = (case n of Some m \<Rightarrow> if isLeaf m then node_keys m else [] | None \<Rightarrow> [])"

text \<open>The keys of the index in the order a scan of its leaves would return them.\<close>

definition index_keys :: "BPlusTree \<Rightarrow> int list" where
  "index_keys t =
     (case page_image t (rootPage t) of
        None \<Rightarrow> []
      | Some r \<Rightarrow>
          if isLeaf r then node_keys r
          else concat (map (\<lambda>c. leaf_keys (page_image t c)) (take (nat (numKeys r) + 1) (children r))))"

definition leaf_img :: "int \<Rightarrow> int list \<Rightarrow> pid \<Rightarrow> BPlusNode" where
  "leaf_img nk ks par = \<lparr>isLeaf = True, numKeys = nk, parentPage = par, keys = ks,
     children = [0, 0, 0, 0], nextLeaf = 0\<rparr>"

text \<open>The engine after the five inserts of the demonstration, after a sixth insert
  (60), and after two more (5, then 35).\<close>

definition demo5 :: BPlusTree where
  "demo5 = \<lparr>bm = \<lparr>sm = \<lparr>blocks = [], failed = True\<rparr>,
     pool = [\<lparr>pageID = 0, dirty = True, data = leaf_img 2 [10, 20, 30] (-1)\<rparr>,
             \<lparr>pageID = 1, dirty = True, data = leaf_img 3 [30, 40, 50] 0\<rparr>,
             \<lparr>pageID = 2, dirty = True, data = root_image 30\<rparr>],
     pageTable = [0 \<mapsto> 0, 1 \<mapsto> 1, 2 \<mapsto> 2], lru = [1, 2, 0], nextPageID = 3\<rparr>,
   rootPage = 2\<rparr>"

definition demo6 :: BPlusTree where
  "demo6 = \<lparr>bm = \<lparr>sm = \<lparr>blocks = [], failed = True\<rparr>,
     pool = [\<lparr>pageID = 3, dirty = True, data = leaf_img 2 [50, 60, 0] 0\<rparr>,
             \<lparr>pageID = 1, dirty = True, data = leaf_img 2 [30, 40, 50] 0\<rparr>,
             \<lparr>pageID = 2, dirty = True, data = root_image 30\<rparr>],
     pageTable = [1 \<mapsto> 1, 2 \<mapsto> 2, 3 \<mapsto> 0], lru = [0, 1, 2], nextPageID = 4\<rparr>,
   rootPage = 2\<rparr>"

definition demo7 :: BPlusTree where
  "demo7 = \<lparr>bm = \<lparr>sm = \<lparr>blocks = [], failed = True\<rparr>,
     pool = [\<lparr>pageID = 3, dirty = True, data = leaf_img 2 [50, 60, 0] 0\<rparr>,
             \<lparr>pageID = 0, dirty = True, data = leaf_img 3 [5, 30, 40] 0\<rparr>,
             \<lparr>pageID = 2, dirty = True, data = root_image 30\<rparr>],
     pageTable = [0 \<mapsto> 1, 2 \<mapsto> 2, 3 \<mapsto> 0], lru = [1, 2, 0], nextPageID = 4\<rparr>,
   rootPage = 2\<rparr>"

definition demo8 :: BPlusTree where
  "demo8 = \<lparr>bm = \<lparr>sm = \<lparr>blocks = [], failed = True\<rparr>,
     pool = [\<lparr>pageID = 1, dirty = True, data = leaf_img 3 [35, 50, 60] 0\<rparr>,
             \<lparr>pageID = 0, dirty = True, data = leaf_img 3 [5, 30, 40] 0\<rparr>,
             \<lparr>pageID = 2, dirty = True, data = root_image 30\<rparr>],
     pageTable = [0 \<mapsto> 1, 1 \<mapsto> 0, 2 \<mapsto> 2], lru = [0, 2, 1], nextPageID = 4\<rparr>,
   rootPage = 2\<rparr>"

section \<open>The runs, one insert at a time\<close>

lemmas scenario_defs = leaf_img_def MAX_KEYS_def BUFFER_CAPACITY_def root_image_def zero_node_eq
  tree_insert_def findLeaf_steps fetchPage_def touch_def insertIntoLeaf_def leaf_put_def
  shift_insert.simps scan_keys.simps write_frame_def markDirty_def

lemma run_first_leaf:
  "run_inserts [10, 20, 30] engine_init = Some (stA (leaf_img 3 [10, 20, 30] (-1)))"
  by (simp add: engine_init_stA stA_insert_room leaf_put_def shift_insert.simps zero_node_eq
      MAX_KEYS_def leaf_img_def)

lemma run_root_split:
  "run_inserts [10, 20, 30, 40] engine_init = Some (stA_split (leaf_img 3 [10, 20, 30] (-1)) 40)"
proof -
  have "tree_insert 40 (stA (leaf_img 3 [10, 20, 30] (-1))) = Some (stA_split (leaf_img 3 [10, 20, 30] (-1)) 40)"
    using stA_insert_full [of "leaf_img 3 [10, 20, 30] (-1)" 40] stA_splitLeaf
    by (simp add: leaf_img_def MAX_KEYS_def)
  then show ?thesis using run_inserts_append [of "[10, 20, 30]" "[40]" engine_init] run_first_leaf
    by simp
qed

lemma insert50: "tree_insert 50 (stA_split (leaf_img 3 [10, 20, 30] (-1)) 40) = Some demo5"
  by (simp add: demo5_def stA_split_def split_tmp_def scenario_defs Let_def copy_keys_2)

lemma run_demo5: "run_inserts demo_keys engine_init = Some demo5"
  using run_inserts_append [of "[10, 20, 30, 40]" "[50]" engine_init] run_root_split insert50
  by (simp add: demo_keys_def)

lemma demo5_inv: "bm_inv (bm demo5)"
  by (auto simp: demo5_def bm_inv_def lru_shape_def frames_ok_def BUFFER_CAPACITY_def nth_Cons'
      split: if_splits)

lemma insert60: "tree_insert 60 demo5 = Some demo6"
proof -
  have fl: "findLeaf 2 60 (bm demo5) = Some (1, bm demo5)"
    by (simp add: demo5_def scenario_defs)
  have il: "insertIntoLeaf 1 60 demo5 = splitLeaf 1 60 demo5"
    by (simp add: demo5_def scenario_defs)
  have sp: "splitLeaf 1 60 demo5 = demo5\<lparr>bm := (bm demo5)\<lparr>nextPageID := 4,
     pageTable := ((pageTable (bm demo5))(0 := None))(3 \<mapsto> 0), lru := [0, 1, 2],
     pool := (pool (bm demo5))
       [0 := (pool (bm demo5) ! 0)\<lparr>pageID := 3,
              data := zero_node\<lparr>isLeaf := True, numKeys := 2,
                 keys := copy_keys (keys zero_node) (split_tmp (leaf_img 3 [30, 40, 50] 0) 60) 2 2\<rparr>,
              dirty := True\<rparr>,
        1 := (pool (bm demo5) ! 1)\<lparr>data := (leaf_img 3 [30, 40, 50] 0)\<lparr>numKeys := 2,
                 keys := copy_keys [30, 40, 50] (split_tmp (leaf_img 3 [30, 40, 50] 0) 60) 0 2\<rparr>,
              dirty := True\<rparr>]\<rparr>\<rparr>"
    using splitLeaf_full [OF demo5_inv, of 1 2 0 1 60] by (simp add: demo5_def leaf_img_def)
  show ?thesis
    using fl il sp
    by (simp add: tree_insert_def demo5_def demo6_def split_tmp_def leaf_img_def copy_keys_2
        zero_node_eq MAX_KEYS_def fun_eq_iff)
qed

lemma insert5: "tree_insert 5 demo6 = Some demo7"
  by (simp add: demo6_def demo7_def scenario_defs fetchPage_full_failed Let_def fun_eq_iff del: fetchPage_def)

lemma insert35: "tree_insert 35 demo7 = Some demo8"
  by (simp add: demo7_def demo8_def scenario_defs fetchPage_full_failed Let_def fun_eq_iff del: fetchPage_def)

lemma run_demo6: "run_inserts (demo_keys @ [60]) engine_init = Some demo6"
  using run_inserts_append [of demo_keys "[60]" engine_init] run_demo5 insert60 by simp

lemma run_demo8: "run_inserts (demo_keys @ [60, 5, 35]) engine_init = Some demo8"
  using run_inserts_append [of demo_keys "[60, 5, 35]" engine_init] run_demo5 insert60 insert5 insert35
  by simp

end
