(* ===== verification/Refinement.thy ===== *)
theory Refinement
  imports Scenario
begin

text \<open>
  The engine against the abstract contract of an index (spec, sections 3 and 4.3):
  a sorted collection of the keys inserted so far, duplicates kept, where an insert
  is an insertion into the sorted list (\<open>spec_insert\<close>). The abstraction of an
  engine state is \<open>index_keys\<close>. The refinement holds for every sequence of at
  most five inserts: the first three fill the root leaf, the fourth splits it into
  a new root over two leaves of two keys, the fifth lands in a leaf with room. It
  fails from the sixth on in general: the sixth insert of the
  demonstration's keys (60) splits a leaf below the root and loses keys (C23).
\<close>

definition spec_insert :: "int \<Rightarrow> int list \<Rightarrow> int list" where
  "spec_insert k xs = insort k xs"

definition spec_run :: "int list \<Rightarrow> int list" where
  "spec_run ks = fold spec_insert ks []"

lemma spec_run_snoc: "spec_run (ks @ [k]) = insort k (spec_run ks)"
  by (simp add: spec_run_def spec_insert_def)

lemma spec_run_sort: "spec_run ks = sort ks"
proof -
  have "spec_insert = insort" by (intro ext) (simp add: spec_insert_def)
  then show ?thesis by (simp add: spec_run_def sort_conv_fold)
qed

lemma leaf_put_isLeaf [simp]: "isLeaf (leaf_put k n) = isLeaf n"
  by (simp add: leaf_put_def)

section \<open>The abstraction on the two shapes\<close>

lemma index_keys_stA: "isLeaf n \<Longrightarrow> index_keys (stA n) = node_keys n"
  by (simp add: index_keys_def page_image_def stA_def)

lemma index_keys_stA_split:
  assumes "isLeaf n" and "node_wf n" and "numKeys n = int MAX_KEYS"
  shows "index_keys (stA_split n k) = insort k (node_keys n)"
proof -
  have "index_keys (stA_split n k) =
     node_keys (n\<lparr>numKeys := 2, keys := copy_keys (keys n) (split_tmp n k) 0 2\<rparr>) @
     node_keys (zero_node\<lparr>isLeaf := True, numKeys := 2, keys := copy_keys (keys zero_node) (split_tmp n k) 2 2\<rparr>)"
    using assms(1) by (simp add: index_keys_def page_image_def stA_split_def Let_def root_image_def
      leaf_keys_def zero_node_eq)
  also have "\<dots> = split_tmp n k"
    using split_halves [OF assms(2,1), of zero_node k] by (simp add: zero_node_eq MAX_KEYS_def)
  finally show ?thesis using split_tmp_insort [OF assms(2,3)] by simp
qed

section \<open>Runs of up to five inserts\<close>

lemma leaf_run:
  assumes "length ks \<le> 3"
  shows "\<exists>n. run_inserts ks engine_init = Some (stA n) \<and> isLeaf n \<and> node_wf n \<and>
             numKeys n = int (length ks) \<and> node_keys n = spec_run ks"
  using assms
proof (induction ks rule: rev_induct)
  case Nil
  show ?case
    by (rule exI [of _ "zero_node\<lparr>isLeaf := True, parentPage := -1\<rparr>"])
      (simp add: engine_init_stA node_wf_def node_keys_def zero_node_eq MAX_KEYS_def spec_run_def)
next
  case (snoc k ks)
  then obtain n where n: "run_inserts ks engine_init = Some (stA n)" "isLeaf n" "node_wf n"
    "numKeys n = int (length ks)" "node_keys n = spec_run ks" by auto
  have room: "numKeys n < int MAX_KEYS" using n(4) snoc.prems by (simp add: MAX_KEYS_def)
  have "run_inserts (ks @ [k]) engine_init = Some (stA (leaf_put k n))"
    using run_inserts_append [of ks "[k]" engine_init] n(1) stA_insert_room [OF n(2) room] by simp
  then show ?case
    using leaf_put_wf_keys [OF n(3) n(2) room, of k] n(4,5) spec_run_snoc [of ks k]
    by (auto simp: leaf_put_def)
qed

text \<open>The fifth insert, on the state the root split leaves: the key goes to the
  left leaf when it is below the separator \<open>tempKeys[2]\<close>, to the right leaf
  otherwise; both have room.\<close>

lemma fifth_insert:
  assumes lf: "isLeaf n" and wf: "node_wf n" and full: "numKeys n = int MAX_KEYS"
  shows "\<exists>t. tree_insert e (stA_split n d) = Some t \<and> index_keys t = insort e (split_tmp n d)"
proof -
  let ?tmp = "split_tmp n d"
  let ?L = "n\<lparr>numKeys := 2, keys := copy_keys (keys n) ?tmp 0 2\<rparr>"
  let ?R = "zero_node\<lparr>isLeaf := True, numKeys := 2, keys := copy_keys (keys zero_node) ?tmp 2 2\<rparr>"
  have h: "node_keys ?L = take 2 ?tmp \<and> node_keys ?R = drop 2 ?tmp \<and> node_wf ?L \<and> node_wf ?R"
    using split_halves [OF wf lf, of zero_node d] by (simp add: zero_node_eq MAX_KEYS_def)
  have lt: "length ?tmp = 4" using wf by (simp add: split_tmp_def node_wf_def MAX_KEYS_def)
  have st: "sorted ?tmp" by (simp add: split_tmp_def)
  have room: "numKeys ?L < int MAX_KEYS" "numKeys ?R < int MAX_KEYS" by (simp_all add: MAX_KEYS_def)
  have hd2: "hd (drop 2 ?tmp) = ?tmp ! 2" using lt by (simp add: hd_drop_conv_nth)
  show ?thesis
  proof (cases "e < ?tmp ! 2")
    case True
    have "map_option index_keys (tree_insert e (stA_split n d)) = Some (node_keys (leaf_put e ?L) @ node_keys ?R)"
      using True lf
      by (simp add: tree_insert_def stA_split_def Let_def findLeaf_steps scan_keys.simps fetchPage_def
          touch_def root_image_def zero_node_eq insertIntoLeaf_def write_frame_def markDirty_def
          MAX_KEYS_def index_keys_def page_image_def leaf_keys_def)
    moreover have "node_keys (leaf_put e ?L) @ node_keys ?R = insort e ?tmp"
      using leaf_put_wf_keys [of ?L e] h room lf lt st True hd2
        insort_append_left [of "take 2 ?tmp" "drop 2 ?tmp" e] by simp
    ultimately show ?thesis by auto
  next
    case False
    have "map_option index_keys (tree_insert e (stA_split n d)) = Some (node_keys ?L @ node_keys (leaf_put e ?R))"
      using False lf
      by (simp add: tree_insert_def stA_split_def Let_def findLeaf_steps scan_keys.simps fetchPage_def
          touch_def root_image_def zero_node_eq insertIntoLeaf_def write_frame_def markDirty_def
          MAX_KEYS_def index_keys_def page_image_def leaf_keys_def)
    moreover have "\<forall>x \<in> set (take 2 ?tmp). x \<le> e"
    proof
      fix x assume "x \<in> set (take 2 ?tmp)"
      then obtain j where "j < 2" and "x = ?tmp ! j" using lt by (auto simp: in_set_conv_nth)
      then have "x \<le> ?tmp ! 2" using st lt by (simp add: sorted_iff_nth_mono)
      then show "x \<le> e" using False by simp
    qed
    moreover have "node_keys ?L @ node_keys (leaf_put e ?R) = insort e ?tmp"
      using leaf_put_wf_keys [of ?R e] h room st calculation(2)
        insort_append_right [of "take 2 ?tmp" "drop 2 ?tmp" e] by (simp add: zero_node_eq)
    ultimately show ?thesis by auto
  qed
qed

lemma root_split_run:
  assumes "length xs = 3"
  shows "\<exists>n. run_inserts (xs @ [d]) engine_init = Some (stA_split n d) \<and> isLeaf n \<and> node_wf n \<and>
             numKeys n = int MAX_KEYS \<and> node_keys n = spec_run xs"
proof -
  obtain n where n: "run_inserts xs engine_init = Some (stA n)" "isLeaf n" "node_wf n"
    "numKeys n = int (length xs)" "node_keys n = spec_run xs"
    using leaf_run [of xs] assms by auto
  have full: "\<not> numKeys n < int MAX_KEYS" and nk: "numKeys n = int MAX_KEYS"
    using n(4) assms by (simp_all add: MAX_KEYS_def)
  have "run_inserts (xs @ [d]) engine_init = Some (stA_split n d)"
    using run_inserts_append [of xs "[d]" engine_init] n(1) stA_insert_full [OF n(2) full, of d]
      stA_splitLeaf by simp
  then show ?thesis using n nk by blast
qed

lemma rev_cases_len:
  assumes "length ks = Suc m"
  obtains xs k where "ks = xs @ [k]" and "length xs = m"
  using assms by (cases ks rule: rev_cases) auto

text \<open>C17. Refinement of the abstract index for short runs: after any sequence of
  at most five inserts from the engine \<^verbatim>\<open>main\<close> constructs, the keys the index
  reaches are exactly the inserted keys in ascending order, the result of the
  abstract \<open>spec_run\<close>.\<close>

theorem engine_refines_sorted_index:
  assumes "length ks \<le> 5"
  shows "\<exists>t. run_inserts ks engine_init = Some t \<and> index_keys t = spec_run ks"
proof -
  consider "length ks \<le> 3" | "length ks = 4" | "length ks = 5" using assms by linarith
  then show ?thesis
  proof cases
    case 1
    then obtain n where "run_inserts ks engine_init = Some (stA n)" "isLeaf n" "node_keys n = spec_run ks"
      using leaf_run by blast
    then show ?thesis using index_keys_stA by metis
  next
    case 2
    then have "length ks = Suc 3" by simp
    then obtain xs d where ks: "ks = xs @ [d]" and l: "length xs = 3" by (rule rev_cases_len)
    obtain n where n: "run_inserts (xs @ [d]) engine_init = Some (stA_split n d)" "isLeaf n" "node_wf n"
      "numKeys n = int MAX_KEYS" "node_keys n = spec_run xs"
      using root_split_run [OF l] by blast
    have "index_keys (stA_split n d) = spec_run ks"
      using index_keys_stA_split [OF n(2,3,4), of d] n(5) spec_run_snoc [of xs d] ks by simp
    then show ?thesis using n(1) ks by blast
  next
    case 3
    then have "length ks = Suc 4" by simp
    then obtain ys e where ys: "ks = ys @ [e]" and l4: "length ys = 4" by (rule rev_cases_len)
    then have "length ys = Suc 3" by simp
    then obtain xs d where xs: "ys = xs @ [d]" and l: "length xs = 3" by (rule rev_cases_len)
    obtain n where n: "run_inserts (xs @ [d]) engine_init = Some (stA_split n d)" "isLeaf n" "node_wf n"
      "numKeys n = int MAX_KEYS" "node_keys n = spec_run xs"
      using root_split_run [OF l] by blast
    obtain t where t: "tree_insert e (stA_split n d) = Some t" "index_keys t = insort e (split_tmp n d)"
      using fifth_insert [OF n(2,3,4)] by blast
    have "run_inserts ks engine_init = Some t"
      using run_inserts_append [of "xs @ [d]" "[e]" engine_init] n(1) t(1) ys xs by simp
    moreover have "index_keys t = spec_run ks"
      using t(2) split_tmp_insort [OF n(3,4), of d] n(5) spec_run_snoc [of xs d] spec_run_snoc [of ys e] ys xs
      by simp
    ultimately show ?thesis by blast
  qed
qed

lemma engine_refines_sorted_index_witness:
  "\<exists>t. run_inserts [50, 10, 40, 20, 30] engine_init = Some t \<and> index_keys t = [10, 20, 30, 40, 50]"
  using engine_refines_sorted_index [of "[50, 10, 40, 20, 30]"]
  by (simp add: spec_run_def spec_insert_def)

end
