(* ===== verification/Keys.thy ===== *)
theory Keys
  imports Scenario
begin

text \<open>
  The keys the index can show. The engine loses keys (C23) and, once pages are
  re-read from a failed stream, puts stale bytes in place of a page (C18), but it never shows a key that was not inserted: every leaf image in
  a frame holds inserted keys only, and the index reads nothing but frames, as the
  file stays empty. The invariant \<open>leaf_keys_within K\<close> says that the leaf images
  of all frames hold keys of \<open>K\<close>; on a failed stream \<^verbatim>\<open>fetchPage\<close> moves page ids
  between frames but never changes their bytes, so only the stores of
  \<^verbatim>\<open>insertIntoLeaf\<close> and \<^verbatim>\<open>splitLeaf\<close> matter, and they store the new key and keys
  of the leaf they split.
\<close>

definition leaf_keys_within :: "int set \<Rightarrow> BufferManager \<Rightarrow> bool" where
  "leaf_keys_within K b \<longleftrightarrow> (\<forall>n \<in> set (map data (pool b)). isLeaf n \<longrightarrow> set (node_keys n) \<subseteq> K)"

section \<open>Page contents on a failed stream\<close>

lemma map_data_update_same:
  assumes "data f = data (xs ! i)"
  shows "map data (xs[i := f]) = map data xs"
proof (cases "i < length xs")
  case True
  then have "(map data xs)[i := data f] = map data xs" using assms by (metis list_update_id nth_map)
  then show ?thesis by (simp add: map_update)
qed (metis list_update_beyond not_less)

lemma evict_failed:
  "failed (sm b) \<Longrightarrow> pool (snd (evict b)) = pool b \<and> failed (sm (snd (evict b)))"
  by (simp add: evict_def Let_def writeDisk_def)

lemma fetchPage_failed_data:
  assumes fl: "failed (sm b)" and fp: "fetchPage p b = (i, b')"
  shows "map data (pool b') = map data (pool b) \<and> failed (sm b')"
proof (cases "pageTable b p")
  case None
  obtain j b1 where ev: "evict b = (j, b1)" by (cases "evict b")
  have b1: "pool b1 = pool b" "failed (sm b1)" using evict_failed [OF fl] ev by simp_all
  have "readDisk p (data (pool b1 ! j)) (sm b1) = (data (pool b1 ! j), sm b1)"
    using b1(2) by (simp add: readDisk_def)
  then have "b' = touch j (b1\<lparr>sm := sm b1,
      pool := (pool b1)[j := (pool b1 ! j)\<lparr>data := data (pool b1 ! j), pageID := p, dirty := False\<rparr>],
      pageTable := (pageTable b1)(p \<mapsto> j)\<rparr>)"
    using None fp ev by (auto simp: fetchPage_def)
  then show ?thesis using b1 by (simp add: map_data_update_same)
next
  case (Some j)
  then have "b' = touch j b" using fp by (auto simp: fetchPage_def)
  then show ?thesis using fl by simp
qed

lemma findLeaf_failed_data:
  assumes fl: "failed (sm b)" and f: "findLeaf p k b = Some (c, b')"
  shows "map data (pool b') = map data (pool b) \<and> failed (sm b')"
proof (rule findLeaf_preserves [where Q = "\<lambda>b1. map data (pool b1) = map data (pool b) \<and> failed (sm b1)",
    OF _ f])
  fix q b1 i b2
  assume "map data (pool b1) = map data (pool b) \<and> failed (sm b1)" and "fetchPage q b1 = (i, b2)"
  then show "map data (pool b2) = map data (pool b) \<and> failed (sm b2)"
    using fetchPage_failed_data [of b1 q i b2] by simp
qed (simp add: fl)

section \<open>The invariant under the stores\<close>

lemma leaf_keys_within_data:
  "map data (pool b') = map data (pool b) \<Longrightarrow> leaf_keys_within K b' = leaf_keys_within K b"
  by (simp add: leaf_keys_within_def)

lemma leaf_keys_within_update:
  assumes "leaf_keys_within K b" and "K \<subseteq> K'"
    and "isLeaf (data f) \<longrightarrow> set (node_keys (data f)) \<subseteq> K'"
  shows "leaf_keys_within K' (b\<lparr>pool := (pool b)[i := f]\<rparr>)"
proof -
  have "set (map data ((pool b)[i := f])) \<subseteq> insert (data f) (set (map data (pool b)))"
    using set_update_subset_insert [of "map data (pool b)" i "data f"] by (simp add: map_update)
  then have "set (map data (pool (b\<lparr>pool := (pool b)[i := f]\<rparr>))) \<subseteq> insert (data f) (set (map data (pool b)))"
    by simp
  then show ?thesis using assms unfolding leaf_keys_within_def by blast
qed

lemma leaf_keys_within_update2:
  assumes "leaf_keys_within K b" and "K \<subseteq> K'"
    and "isLeaf (data f) \<longrightarrow> set (node_keys (data f)) \<subseteq> K'"
    and "isLeaf (data g) \<longrightarrow> set (node_keys (data g)) \<subseteq> K'"
  shows "leaf_keys_within K' (b\<lparr>pool := (pool b)[i := f, j := g]\<rparr>)"
proof -
  have "set (map data ((pool b)[i := f, j := g])) \<subseteq> insert (data g) (insert (data f) (set (map data (pool b))))"
    using set_update2_subset [of "map data (pool b)" i "data f" j "data g"] by (simp add: map_update)
  then have "set (map data (pool (b\<lparr>pool := (pool b)[i := f, j := g]\<rparr>))) \<subseteq>
      insert (data g) (insert (data f) (set (map data (pool b))))"
    by simp
  then show ?thesis using assms unfolding leaf_keys_within_def by blast
qed

lemma leaf_put_keys:
  assumes "node_wf n" and "isLeaf n" and "numKeys n < int MAX_KEYS"
  shows "set (node_keys (leaf_put k n)) = insert k (set (node_keys n))"
  using leaf_put_wf_keys [OF assms] by (simp add: set_insort_key)

text \<open>The two halves of a split hold the keys of the full leaf and the new key.\<close>

lemma split_halves_keys:
  assumes wf: "node_wf n" and lf: "isLeaf n" and full: "\<not> numKeys n < int MAX_KEYS"
    and ln: "length (keys n') = MAX_KEYS" and lc: "length (children n') = Suc MAX_KEYS"
  shows "set (node_keys (n\<lparr>numKeys := 2, keys := copy_keys (keys n) (split_tmp n k) 0 2\<rparr>)) \<subseteq> insert k (set (node_keys n)) \<and>
         set (node_keys (n'\<lparr>isLeaf := True, numKeys := 2, keys := copy_keys (keys n') (split_tmp n k) 2 2\<rparr>))
           \<subseteq> insert k (set (node_keys n))"
proof -
  let ?tmp = "split_tmp n k"
  have "numKeys n = int MAX_KEYS" using wf full by (simp add: node_wf_def)
  then have s: "set ?tmp = insert k (set (node_keys n))"
    using split_tmp_insort [OF wf] by (simp add: set_insort_key)
  have h: "node_keys (n\<lparr>numKeys := 2, keys := copy_keys (keys n) ?tmp 0 2\<rparr>) = take 2 ?tmp \<and>
     node_keys (n'\<lparr>isLeaf := True, numKeys := 2, keys := copy_keys (keys n') ?tmp 2 2\<rparr>) = drop 2 ?tmp"
    using split_halves [OF wf lf ln lc, of k] by blast
  show ?thesis using h s set_take_subset [of 2 ?tmp] set_drop_subset [of 2 ?tmp] by simp
qed

section \<open>One insert on either shape\<close>

lemma stA_keys_within:
  "isLeaf n \<Longrightarrow> leaf_keys_within K (bm (stA n)) \<longleftrightarrow> set (node_keys n) \<subseteq> K"
  by (simp add: leaf_keys_within_def stA_def empty_frame_def)

lemma stA_step_keys:
  assumes lf: "isLeaf n" and wf: "node_wf n" and kw: "set (node_keys n) \<subseteq> K"
    and ti: "tree_insert k (stA n) = Some t'"
  shows "leaf_keys_within (insert k K) (bm t')"
proof (cases "numKeys n < int MAX_KEYS")
  case True
  then have "t' = stA (leaf_put k n)" using ti stA_insert_room [OF lf True, of k] by simp
  then show ?thesis using leaf_put_keys [OF wf lf True, of k] kw lf stA_keys_within [of "leaf_put k n"]
    by (auto simp: leaf_put_def)
next
  case False
  then have t': "t' = stA_split n k" using ti stA_insert_full [OF lf False, of k] stA_splitLeaf by simp
  have "set (node_keys (n\<lparr>numKeys := 2, keys := copy_keys (keys n) (split_tmp n k) 0 2\<rparr>)) \<subseteq> insert k K \<and>
        set (node_keys (zero_node\<lparr>isLeaf := True, numKeys := 2, keys := copy_keys (keys zero_node) (split_tmp n k) 2 2\<rparr>))
          \<subseteq> insert k K"
    using split_halves_keys [OF wf lf False, of zero_node k] kw by (auto simp: MAX_KEYS_def)
  then show ?thesis using root_image_node [of "split_tmp n k ! 2"]
    by (auto simp: t' stA_split_def Let_def leaf_keys_within_def root_node_def)
qed

lemma two_level_step_keys:
  assumes tl: "two_level t" and kw: "leaf_keys_within K (bm t)" and ti: "tree_insert k t = Some t'"
  shows "leaf_keys_within (insert k K) (bm t')"
proof -
  obtain c b2 m r x where fl: "findLeaf 2 k (bm t) = Some (c, b2)" and tl2: "two_level (t\<lparr>bm := b2\<rparr>)"
    and c01: "c = 0 \<or> c = 1" and c: "pageTable b2 c = Some m" and r: "pageTable b2 2 = Some r"
    and l: "lru b2 = [m, r, x]"
    and ti2: "tree_insert k t = Some (if numKeys (data (pool b2 ! m)) < int MAX_KEYS
           then t\<lparr>bm := markDirty c (write_frame m (leaf_put k) b2)\<rparr> else splitLeaf c k (t\<lparr>bm := b2\<rparr>))"
    by (rule two_level_insert_form [OF tl, of k])
  have c2: "c \<noteq> 2" using c01 by auto
  have t': "t' = (if numKeys (data (pool b2 ! m)) < int MAX_KEYS
           then t\<lparr>bm := markDirty c (write_frame m (leaf_put k) b2)\<rparr> else splitLeaf c k (t\<lparr>bm := b2\<rparr>))"
    using ti ti2 by simp
  have kw2: "leaf_keys_within K b2"
    using findLeaf_failed_data [OF _ fl] tl kw leaf_keys_within_data by (metis two_level_def)
  have inv: "bm_inv b2" and fld: "failed (sm b2)" using tl2 by (simp_all add: two_level_def)
  have mi: "m \<in> set (lru b2)" and pm: "pageID (pool b2 ! m) = c"
    using c frames_ok_iff [of b2 c m] inv by (simp_all add: bm_inv_def)
  have lt: "m < length (pool b2)"
    using inv mi lru_shape_nth_lt [of "lru b2"] by (auto simp: bm_inv_def frames_ok_def)
  have om: "isLeaf (data (pool b2 ! m)) \<and> node_wf (data (pool b2 ! m))"
    using two_level_frame [OF tl2, of m] lt pm c2 by (simp add: frame_shape_def)
  have km: "set (node_keys (data (pool b2 ! m))) \<subseteq> K"
    using kw2 om lt by (auto simp: leaf_keys_within_def)
  show ?thesis
  proof (cases "numKeys (data (pool b2 ! m)) < int MAX_KEYS")
    case True
    have "markDirty c (write_frame m (leaf_put k) b2) =
        b2\<lparr>pool := (pool b2)[m := (pool b2 ! m)\<lparr>data := leaf_put k (data (pool b2 ! m)), dirty := True\<rparr>]\<rparr>"
      using c lt by (simp add: markDirty_def write_frame_def)
    moreover have "leaf_keys_within (insert k K)
        (b2\<lparr>pool := (pool b2)[m := (pool b2 ! m)\<lparr>data := leaf_put k (data (pool b2 ! m)), dirty := True\<rparr>]\<rparr>)"
      by (rule leaf_keys_within_update [OF kw2])
        (use leaf_put_keys [of "data (pool b2 ! m)" k] om km True in auto)
    ultimately show ?thesis using True t' by simp
  next
    case False
    let ?n = "data (pool b2 ! m)"
    have rt: "rootPage (t\<lparr>bm := b2\<rparr>) = 2" using tl2 by (simp add: two_level_def)
    have "bm t' = b2\<lparr>nextPageID := nextPageID b2 + 1,
       pageTable := ((pageTable b2)(pageID (pool b2 ! x) := None))(nextPageID b2 \<mapsto> x), lru := [x, m, r],
       pool := (pool b2)
         [x := (pool b2 ! x)\<lparr>pageID := nextPageID b2,
                data := zero_node\<lparr>isLeaf := True, numKeys := 2,
                   keys := copy_keys (keys zero_node) (split_tmp ?n k) 2 2\<rparr>, dirty := True\<rparr>,
          m := (pool b2 ! m)\<lparr>data := ?n\<lparr>numKeys := 2, keys := copy_keys (keys ?n) (split_tmp ?n k) 0 2\<rparr>,
                dirty := True\<rparr>]\<rparr>"
      using False t' splitLeaf_full [of "t\<lparr>bm := b2\<rparr>" m r x c k] inv fld l c c2 rt
        two_level_fresh [OF tl2] by simp
    moreover have "set (node_keys (?n\<lparr>numKeys := 2, keys := copy_keys (keys ?n) (split_tmp ?n k) 0 2\<rparr>)) \<subseteq> insert k K \<and>
       set (node_keys (zero_node\<lparr>isLeaf := True, numKeys := 2, keys := copy_keys (keys zero_node) (split_tmp ?n k) 2 2\<rparr>))
         \<subseteq> insert k K"
      using split_halves_keys [of ?n zero_node k] om False km by (auto simp: MAX_KEYS_def)
    then have "leaf_keys_within (insert k K) (b2\<lparr>pool := (pool b2)
         [x := (pool b2 ! x)\<lparr>pageID := nextPageID b2,
                data := zero_node\<lparr>isLeaf := True, numKeys := 2,
                   keys := copy_keys (keys zero_node) (split_tmp ?n k) 2 2\<rparr>, dirty := True\<rparr>,
          m := (pool b2 ! m)\<lparr>data := ?n\<lparr>numKeys := 2, keys := copy_keys (keys ?n) (split_tmp ?n k) 0 2\<rparr>,
                dirty := True\<rparr>]\<rparr>)"
      by (intro leaf_keys_within_update2 [OF kw2]) auto
    ultimately show ?thesis by (simp add: leaf_keys_within_def)
  qed
qed

lemma engine_step_keys:
  assumes sh: "engine_shape t" and kw: "leaf_keys_within K (bm t)" and ti: "tree_insert k t = Some t'"
  shows "leaf_keys_within (insert k K) (bm t')"
  using sh
proof (cases rule: engine_shape_cases)
  case (single n)
  then show ?thesis using stA_step_keys [of n K k t'] kw ti stA_keys_within by simp
next
  case two
  then show ?thesis using two_level_step_keys kw ti by blast
qed

section \<open>The index reads frames only\<close>

lemma page_image_frame:
  assumes inv: "bm_inv (bm t)" and bl: "blocks (sm (bm t)) = []" and "page_image t p = Some n"
  shows "n \<in> set (map data (pool (bm t)))"
proof -
  obtain i where i: "pageTable (bm t) p = Some i" and n: "n = data (pool (bm t) ! i)"
    using assms(3) bl by (auto simp: page_image_def split: option.splits)
  have "i \<in> set (lru (bm t))" using i inv frames_ok_iff [of "bm t" p i] by (simp add: bm_inv_def)
  then have "i < length (pool (bm t))"
    using inv lru_shape_nth_lt [of "lru (bm t)" i] by (simp add: bm_inv_def frames_ok_def)
  then show ?thesis using n by simp
qed

lemma index_keys_within:
  assumes inv: "bm_inv (bm t)" and bl: "blocks (sm (bm t)) = []" and kw: "leaf_keys_within K (bm t)"
  shows "set (index_keys t) \<subseteq> K"
proof -
  have leaf: "set (leaf_keys (page_image t p)) \<subseteq> K" for p
  proof (cases "page_image t p")
    case (Some n)
    then have "n \<in> set (map data (pool (bm t)))" by (rule page_image_frame [OF inv bl])
    then show ?thesis using Some kw by (auto simp: leaf_keys_def leaf_keys_within_def)
  qed (simp add: leaf_keys_def)
  show ?thesis
  proof (cases "page_image t (rootPage t)")
    case (Some r)
    have "r \<in> set (map data (pool (bm t)))" using Some by (rule page_image_frame [OF inv bl])
    then have "isLeaf r \<Longrightarrow> set (node_keys r) \<subseteq> K" using kw by (auto simp: leaf_keys_within_def)
    then show ?thesis using Some leaf by (auto simp: index_keys_def)
  qed (simp add: index_keys_def)
qed

lemma run_keys_within:
  "engine_shape t \<Longrightarrow> leaf_keys_within K (bm t) \<Longrightarrow> run_inserts ks t = Some t' \<Longrightarrow>
   engine_shape t' \<and> leaf_keys_within (K \<union> set ks) (bm t')"
proof (induction ks arbitrary: t K)
  case Nil
  then show ?case by simp
next
  case (Cons k ks)
  obtain t1 where t1: "tree_insert k t = Some t1" and r: "run_inserts ks t1 = Some t'"
    using Cons.prems(3) by (auto split: option.splits)
  have "engine_shape t1" using engine_shape_step [OF Cons.prems(1), of k] t1 by auto
  moreover have "leaf_keys_within (insert k K) (bm t1)" using engine_step_keys [OF Cons.prems(1,2) t1] .
  ultimately show ?case using Cons.IH [of t1 "insert k K"] r by simp
qed

lemma engine_init_keys: "leaf_keys_within {} (bm engine_init)"
  by (simp add: engine_init_stA stA_keys_within node_keys_def)

section \<open>No key is invented\<close>

text \<open>C21. The index never shows a key that was not inserted: after any run of
  inserts from the engine \<^verbatim>\<open>main\<close> constructs, however long and whatever keys it
  loses or misorders (C18, C23), every key the index reaches is one of the keys
  inserted.\<close>

theorem index_keys_inserted:
  assumes "run_inserts ks engine_init = Some t"
  shows "set (index_keys t) \<subseteq> set ks"
proof -
  have "engine_shape t \<and> leaf_keys_within (set ks) (bm t)"
    using run_keys_within [OF engine_init_shape engine_init_keys assms] by simp
  then show ?thesis using index_keys_within engine_shape_inv engine_shape_disk by blast
qed

lemma index_keys_inserted_witness:
  "set (index_keys demo8) \<subseteq> set (demo_keys @ [60, 5, 35])"
  using index_keys_inserted [OF run_demo8] .

end
