(* ===== verification/Allocation.thy ===== *)
theory Allocation
  imports Scenario
begin

text \<open>
  How fast the engine consumes page ids, and what that means for the byte offsets
  of \<open>Storage\<close>. Only \<^verbatim>\<open>allocatePage\<close> advances \<^verbatim>\<open>nextPageID\<close> (by one); an insert
  allocates at most twice (the new leaf of a split and a new root), so after \<open>n\<close>
  inserts the counter is at most \<open>1 + 2n\<close>. Combined with the invariant that every
  resident page id lies below the counter, runs of fewer than \<open>2\<^sup>1\<^sup>8\<close> inserts never
  reach the page ids whose offsets overflow a 32-bit \<^verbatim>\<open>int\<close> (C9).
\<close>

section \<open>The counter under each operation\<close>

lemma markDirty_nextPageID [simp]: "nextPageID (markDirty p b) = nextPageID b"
  by (simp add: markDirty_def split: option.split)

lemma write_frame_nextPageID [simp]: "nextPageID (write_frame i f b) = nextPageID b"
  by (simp add: write_frame_def)

lemma split_writes_nextPageID [simp]:
  "nextPageID (split_writes oldp newp io inw key b) = nextPageID b"
  by (simp add: split_writes_def Let_def)

lemma fetchPage_nextPageID:
  "fetchPage p b = (i, b') \<Longrightarrow> nextPageID b' = nextPageID b"
  using fetchPage_installs by blast

lemma allocatePage_next:
  assumes "allocatePage b = (p, b')"
  shows "p = nextPageID b \<and> nextPageID b' = nextPageID b + 1"
proof -
  obtain i b2 where fp: "fetchPage (nextPageID b) (b\<lparr>nextPageID := nextPageID b + 1\<rparr>) = (i, b2)"
    by (cases "fetchPage (nextPageID b) (b\<lparr>nextPageID := nextPageID b + 1\<rparr>)")
  then have "nextPageID b2 = nextPageID b + 1" using fetchPage_nextPageID by fastforce
  then show ?thesis using assms fp by (auto simp: allocatePage_def Let_def)
qed

lemma insertIntoParent_next:
  "nextPageID (bm t) \<le> nextPageID (bm (insertIntoParent l key r t)) \<and>
   nextPageID (bm (insertIntoParent l key r t)) \<le> nextPageID (bm t) + 1"
proof -
  obtain nr b1 where a: "allocatePage (bm t) = (nr, b1)" by (cases "allocatePage (bm t)")
  obtain i b2 where f: "fetchPage nr b1 = (i, b2)" by (cases "fetchPage nr b1")
  have "nextPageID b2 = nextPageID (bm t) + 1"
    using allocatePage_next [OF a] fetchPage_nextPageID [OF f] by simp
  then show ?thesis using a f by (simp add: insertIntoParent_def)
qed

lemma splitLeaf_next:
  "nextPageID (bm t) + 1 \<le> nextPageID (bm (splitLeaf c key t)) \<and>
   nextPageID (bm (splitLeaf c key t)) \<le> nextPageID (bm t) + 2"
proof -
  obtain p b1 where a: "allocatePage (bm t) = (p, b1)" by (cases "allocatePage (bm t)")
  obtain io b2 where f1: "fetchPage c b1 = (io, b2)" by (cases "fetchPage c b1")
  obtain inw b3 where f2: "fetchPage p b2 = (inw, b3)" by (cases "fetchPage p b2")
  let ?t9 = "t\<lparr>bm := split_writes c p io inw key b3\<rparr>"
  have n9: "nextPageID (bm ?t9) = nextPageID (bm t) + 1"
    using allocatePage_next [OF a] fetchPage_nextPageID [OF f1] fetchPage_nextPageID [OF f2] by simp
  have eq: "splitLeaf c key t = insertIntoParent c (keys (data (pool (bm ?t9) ! inw)) ! 0) p ?t9"
    using a f1 f2 by (simp add: splitLeaf_def Let_def)
  show ?thesis
    unfolding eq using insertIntoParent_next [of ?t9 c "keys (data (pool (bm ?t9) ! inw)) ! 0" p] n9
    by linarith
qed

lemma insertIntoLeaf_next:
  "nextPageID (bm t) \<le> nextPageID (bm (insertIntoLeaf c key t)) \<and>
   nextPageID (bm (insertIntoLeaf c key t)) \<le> nextPageID (bm t) + 2"
proof -
  obtain i b1 where f: "fetchPage c (bm t) = (i, b1)" by (cases "fetchPage c (bm t)")
  have n1: "nextPageID b1 = nextPageID (bm t)" using fetchPage_nextPageID [OF f] .
  show ?thesis
  proof (cases "numKeys (data (pool b1 ! i)) < int MAX_KEYS")
    case True
    then show ?thesis using f n1 by (simp add: insertIntoLeaf_def)
  next
    case False
    then show ?thesis using f n1 splitLeaf_next [of "t\<lparr>bm := b1\<rparr>" c key]
      by (simp add: insertIntoLeaf_def)
  qed
qed

lemma tree_insert_next:
  assumes "tree_insert k t = Some t'"
  shows "nextPageID (bm t) \<le> nextPageID (bm t') \<and> nextPageID (bm t') \<le> nextPageID (bm t) + 2"
proof -
  obtain c b1 where fl: "findLeaf (rootPage t) k (bm t) = Some (c, b1)" and t': "t' = insertIntoLeaf c k (t\<lparr>bm := b1\<rparr>)"
    using assms by (auto simp: tree_insert_def split: option.splits)
  have "nextPageID b1 = nextPageID (bm t)" using findLeaf_nextPageID [OF fl] .
  then show ?thesis using insertIntoLeaf_next [of "t\<lparr>bm := b1\<rparr>" c k] t' by simp
qed

lemma run_inserts_next:
  "run_inserts ks t = Some t' \<Longrightarrow>
   nextPageID (bm t) \<le> nextPageID (bm t') \<and> nextPageID (bm t') \<le> nextPageID (bm t) + 2 * int (length ks)"
proof (induction ks arbitrary: t)
  case Nil
  then show ?case by simp
next
  case (Cons k ks)
  then obtain t1 where t1: "tree_insert k t = Some t1" and r: "run_inserts ks t1 = Some t'"
    by (auto split: option.splits)
  show ?case using tree_insert_next [OF t1] Cons.IH [OF r] by simp
qed

lemma engine_init_nextPageID: "nextPageID (bm engine_init) = 1"
  by (simp add: engine_init_stA stA_def)

section \<open>Page ids and offsets over a run\<close>

text \<open>C19. Every insert allocates at most two pages: after a run of \<open>n\<close> inserts from
  the engine \<^verbatim>\<open>main\<close> builds, \<^verbatim>\<open>nextPageID\<close> is at most \<open>1 + 2n\<close>.\<close>

theorem page_ids_bounded:
  assumes "run_inserts ks engine_init = Some t"
  shows "nextPageID (bm t) \<le> 1 + 2 * int (length ks)"
  using run_inserts_next [OF assms] engine_init_nextPageID by simp

lemma page_ids_bounded_witness: "nextPageID (bm demo5) \<le> 1 + 2 * int (length demo_keys)"
  using page_ids_bounded [OF run_demo5] .

text \<open>C20. No offset overflow on runs of fewer than \<open>2\<^sup>1\<^sup>8\<close> inserts: every resident
  page then has an id below \<open>2\<^sup>1\<^sup>9\<close>, and its byte offset is \<open>pageID * 4096\<close>
  exactly, as the wrap-around of C9 needs ids of \<open>2\<^sup>1\<^sup>9\<close> and more.\<close>

theorem offsets_exact_short_runs:
  assumes run: "run_inserts ks engine_init = Some t" and len: "length ks < 2 ^ 18"
    and i: "i \<in> set (lru (bm t))"
  shows "page_offset (pageID (pool (bm t) ! i)) = pageID (pool (bm t) ! i) * 4096"
proof -
  have r: "0 \<le> pageID (pool (bm t) ! i) \<and> pageID (pool (bm t) ! i) < nextPageID (bm t)"
    using engine_shape_resident [OF reachable_shape [OF reachable_run [OF run]] i] by simp
  have "nextPageID (bm t) \<le> 1 + 2 * int (length ks)"
    using run_inserts_next [OF run] engine_init_nextPageID by simp
  also have "\<dots> < 2 ^ 19" using len by simp
  finally show ?thesis using r by (intro page_offset_in_range) simp_all
qed

lemma offsets_exact_short_runs_witness:
  "page_offset (pageID (pool (bm demo5) ! 2)) = pageID (pool (bm demo5) ! 2) * 4096"
  using offsets_exact_short_runs [OF run_demo5, of 2] by (simp add: demo_keys_def demo5_def)

end
