(* ===== verification/Loss.thy ===== *)
theory Loss
  imports Refinement Keys Allocation
begin

text \<open>
  What a split below the root does to the index, on every reachable state and not
  only in one scenario. The split allocates a page for the upper half; the
  allocation evicts the least recent frame, which holds the sibling leaf or a page
  the index cannot reach anyway; the sibling is never written (the stream has
  failed) and \<^verbatim>\<open>insertIntoParent\<close> does not link the new page. What the index still
  reaches is the lower half of the split leaf: two keys (C23). An insert that does
  not split, in contrast, always leaves its key where the index finds it (C24).
\<close>

lemma index_keys_two_level:
  assumes rt: "rootPage t = 2" and r: "pageTable (bm t) 2 = Some r"
    and rn: "root_node (data (pool (bm t) ! r))"
  shows "index_keys t = leaf_keys (page_image t 0) @ leaf_keys (page_image t 1)"
proof -
  let ?R = "data (pool (bm t) ! r)"
  have nk: "nat (numKeys ?R) + 1 = 2" and ch: "take 2 (children ?R) = [0, 1]" and nl: "\<not> isLeaf ?R"
    using rn by (simp_all add: root_node_def)
  have tk: "take (nat (numKeys ?R) + 1) (children ?R) = [0, 1]" using nk ch by (simp only:)
  have pi: "page_image t 2 = Some ?R" using r by (simp add: page_image_def)
  have "index_keys t = concat (map (\<lambda>c. leaf_keys (page_image t c)) (take (nat (numKeys ?R) + 1) (children ?R)))"
    using pi nl rt by (simp add: index_keys_def)
  also have "\<dots> = leaf_keys (page_image t 0) @ leaf_keys (page_image t 1)" by (simp only: tk) simp
  finally show ?thesis .
qed

lemma page_image_gone:
  "pageTable (bm t) p = None \<Longrightarrow> blocks (sm (bm t)) = [] \<Longrightarrow> page_image t p = None"
  by (simp add: page_image_def)

text \<open>The frames of a full two-level cache: the one of the leaf the descent reached,
  the root's, and a third; no other frame holds a page.\<close>

lemma three_frames_pages:
  assumes inv: "bm_inv b" and l: "lru b = [m, r, x]" and pt: "pageTable b s = Some j"
  shows "j = m \<or> j = r \<or> j = x"
  using pt inv frames_ok_iff [of b s j] l by (auto simp: bm_inv_def)

text \<open>C23. A split below the root empties the index down to two keys: on every
  reachable two-level state, an insert that allocates a page (that is, splits the
  leaf the key goes to) leaves an index of exactly two keys, the lower half of the
  split leaf, however many keys it held before.\<close>

theorem split_below_root_collapses:
  assumes re: "reachable t" and rt: "rootPage t = 2" and ti: "tree_insert k t = Some t'"
    and al: "nextPageID (bm t') \<noteq> nextPageID (bm t)"
  shows "length (index_keys t') = 2"
proof -
  have tl: "two_level t"
    using reachable_shape [OF re] rt by (auto elim: engine_shape_cases simp: stA_def)
  obtain c b2 m r x where fl: "findLeaf 2 k (bm t) = Some (c, b2)" and tl2: "two_level (t\<lparr>bm := b2\<rparr>)"
    and c01: "c = 0 \<or> c = 1" and c: "pageTable b2 c = Some m" and r: "pageTable b2 2 = Some r"
    and l: "lru b2 = [m, r, x]"
    and ti2: "tree_insert k t = Some (if numKeys (data (pool b2 ! m)) < int MAX_KEYS
           then t\<lparr>bm := markDirty c (write_frame m (leaf_put k) b2)\<rparr> else splitLeaf c k (t\<lparr>bm := b2\<rparr>))"
    by (rule two_level_insert_form [OF tl, of k])
  have c2: "c \<noteq> 2" using c01 by auto
  have n2: "nextPageID b2 = nextPageID (bm t)" using findLeaf_nextPageID [OF fl] .
  have full: "\<not> numKeys (data (pool b2 ! m)) < int MAX_KEYS"
  proof
    assume "numKeys (data (pool b2 ! m)) < int MAX_KEYS"
    then have "t' = t\<lparr>bm := markDirty c (write_frame m (leaf_put k) b2)\<rparr>" using ti ti2 by simp
    then show False using al n2 by simp
  qed
  then have t': "t' = splitLeaf c k (t\<lparr>bm := b2\<rparr>)" using ti ti2 by simp
  have inv: "bm_inv b2" and fld: "failed (sm b2)" and bl: "blocks (sm b2) = []"
    and p3: "3 \<le> nextPageID b2"
    using tl2 by (simp_all add: two_level_def)
  have d: "distinct [m, r, x]" using inv l by (simp add: bm_inv_def lru_shape_def)
  have lt: "m < length (pool b2)" "r < length (pool b2)" "x < length (pool b2)"
    using inv l lru_shape_nth_lt [of "lru b2"] by (auto simp: bm_inv_def frames_ok_def)
  have pm: "pageID (pool b2 ! m) = c" and pr: "pageID (pool b2 ! r) = 2"
    using c r inv frames_ok_iff [of b2] by (simp_all add: bm_inv_def)
  have px0: "pageTable b2 (pageID (pool b2 ! x)) = Some x"
    using inv frames_ok_iff [of b2 "pageID (pool b2 ! x)" x] l by (simp add: bm_inv_def)
  have px: "pageID (pool b2 ! x) \<noteq> 2" "pageID (pool b2 ! x) \<noteq> c"
    using px0 r c d by auto
  have om: "isLeaf (data (pool b2 ! m)) \<and> node_wf (data (pool b2 ! m))"
    using two_level_frame [OF tl2, of m] lt(1) pm c2 by (simp add: frame_shape_def)
  have rn: "root_node (data (pool b2 ! r))"
    using two_level_frame [OF tl2, of r] lt(2) pr by (simp add: frame_shape_def)
  let ?n = "data (pool b2 ! m)"
  let ?L = "?n\<lparr>numKeys := 2, keys := copy_keys (keys ?n) (split_tmp ?n k) 0 2\<rparr>"
  have eq: "bm t' = b2\<lparr>nextPageID := nextPageID b2 + 1,
     pageTable := ((pageTable b2)(pageID (pool b2 ! x) := None))(nextPageID b2 \<mapsto> x), lru := [x, m, r],
     pool := (pool b2)
       [x := (pool b2 ! x)\<lparr>pageID := nextPageID b2,
              data := zero_node\<lparr>isLeaf := True, numKeys := 2,
                 keys := copy_keys (keys zero_node) (split_tmp ?n k) 2 2\<rparr>, dirty := True\<rparr>,
        m := (pool b2 ! m)\<lparr>data := ?L, dirty := True\<rparr>]\<rparr>"
    using t' splitLeaf_full [of "t\<lparr>bm := b2\<rparr>" m r x c k] inv fld l c c2 rt two_level_fresh [OF tl2] by simp
  have rt': "rootPage t' = 2" using t' rt c2 by (simp add: splitLeaf_def insertIntoParent_def Let_def split: prod.split)
  have root': "pageTable (bm t') 2 = Some r \<and> root_node (data (pool (bm t') ! r))"
    using eq r px(1) p3 d rn by simp
  have leaf': "pageTable (bm t') c = Some m \<and> data (pool (bm t') ! m) = ?L"
    using eq c px(2) p3 c01 lt(1) by auto
  have sib: "pageTable (bm t') (1 - c) = None"
  proof -
    have "pageTable b2 (1 - c) = None \<or> pageTable b2 (1 - c) = Some x"
    proof (cases "pageTable b2 (1 - c)")
      case (Some j)
      have "pageID (pool b2 ! j) = 1 - c" using Some inv frames_ok_iff [of b2 "1 - c" j] by (simp add: bm_inv_def)
      then have "j \<noteq> m" and "j \<noteq> r" using pm pr c01 by auto
      then show ?thesis using three_frames_pages [OF inv l Some] Some by blast
    qed simp
    moreover have "pageID (pool b2 ! x) = 1 - c" if "pageTable b2 (1 - c) = Some x"
      using that inv frames_ok_iff [of b2] by (simp add: bm_inv_def)
    ultimately show ?thesis using eq p3 c01 by auto
  qed
  have bl': "blocks (sm (bm t')) = []" using eq bl by simp
  have "length (leaf_keys (page_image t' c)) = 2"
    using leaf' split_halves [of ?n zero_node k] om
    by (simp add: page_image_def leaf_keys_def split_tmp_def node_wf_def MAX_KEYS_def)
  moreover have "leaf_keys (page_image t' (1 - c)) = []"
    using page_image_gone [OF sib bl'] by (simp add: leaf_keys_def)
  ultimately show ?thesis
    using index_keys_two_level [OF rt' conjunct1 [OF root'] conjunct2 [OF root']] c01 by auto
qed

lemma split_below_root_collapses_witness:
  "rootPage demo5 = 2 \<and> nextPageID (bm demo6) \<noteq> nextPageID (bm demo5) \<and> length (index_keys demo6) = 2"
proof -
  have h: "rootPage demo5 = 2" "nextPageID (bm demo6) \<noteq> nextPageID (bm demo5)"
    by (simp_all add: demo5_def demo6_def)
  show ?thesis using split_below_root_collapses [OF reachable_run [OF run_demo5] h(1) insert60 h(2)] h by simp
qed

section \<open>An insert without a split keeps its key\<close>

lemma two_level_room_keys:
  assumes tl: "two_level t" and ti: "tree_insert k t = Some t'"
    and same: "nextPageID (bm t') = nextPageID (bm t)"
  shows "k \<in> set (index_keys t')"
proof -
  obtain c b2 m r x where fl: "findLeaf 2 k (bm t) = Some (c, b2)" and tl2: "two_level (t\<lparr>bm := b2\<rparr>)"
    and c01: "c = 0 \<or> c = 1" and c: "pageTable b2 c = Some m" and r: "pageTable b2 2 = Some r"
    and l: "lru b2 = [m, r, x]"
    and ti2: "tree_insert k t = Some (if numKeys (data (pool b2 ! m)) < int MAX_KEYS
           then t\<lparr>bm := markDirty c (write_frame m (leaf_put k) b2)\<rparr> else splitLeaf c k (t\<lparr>bm := b2\<rparr>))"
    by (rule two_level_insert_form [OF tl, of k])
  have c2: "c \<noteq> 2" using c01 by auto
  have n2: "nextPageID b2 = nextPageID (bm t)" using findLeaf_nextPageID [OF fl] .
  have room: "numKeys (data (pool b2 ! m)) < int MAX_KEYS"
  proof (rule ccontr)
    assume "\<not> numKeys (data (pool b2 ! m)) < int MAX_KEYS"
    then have "t' = splitLeaf c k (t\<lparr>bm := b2\<rparr>)" using ti ti2 by simp
    then show False using splitLeaf_next [of "t\<lparr>bm := b2\<rparr>" c k] same n2 by simp
  qed
  have inv: "bm_inv b2" using tl2 by (simp add: two_level_def)
  have lt: "m < length (pool b2)" "r < length (pool b2)"
    using inv l lru_shape_nth_lt [of "lru b2"] by (auto simp: bm_inv_def frames_ok_def)
  have pm: "pageID (pool b2 ! m) = c" and pr: "pageID (pool b2 ! r) = 2"
    using c r inv frames_ok_iff [of b2] by (simp_all add: bm_inv_def)
  have om: "isLeaf (data (pool b2 ! m)) \<and> node_wf (data (pool b2 ! m))"
    using two_level_frame [OF tl2, of m] lt(1) pm c2 by (simp add: frame_shape_def)
  have rn: "root_node (data (pool b2 ! r))"
    using two_level_frame [OF tl2, of r] lt(2) pr by (simp add: frame_shape_def)
  have mr: "m \<noteq> r" using pm pr c2 by auto
  have rt: "rootPage t = 2" using tl by (simp add: two_level_def)
  have eq: "bm t' = b2\<lparr>pool := (pool b2)[m := (pool b2 ! m)\<lparr>data := leaf_put k (data (pool b2 ! m)), dirty := True\<rparr>]\<rparr>"
  proof -
    have "t' = t\<lparr>bm := markDirty c (write_frame m (leaf_put k) b2)\<rparr>" using ti ti2 room by simp
    then show ?thesis using c lt(1) by (simp add: markDirty_def write_frame_def)
  qed
  have rt': "rootPage t' = 2" using ti ti2 room rt by auto
  have root': "pageTable (bm t') 2 = Some r" "root_node (data (pool (bm t') ! r))"
    using eq r rn mr by simp_all
  have "page_image t' c = Some (leaf_put k (data (pool b2 ! m)))"
    using eq c lt(1) by (simp add: page_image_def)
  then have "k \<in> set (leaf_keys (page_image t' c))"
    using leaf_put_keys [of "data (pool b2 ! m)" k] om room by (simp add: leaf_keys_def)
  then show ?thesis using index_keys_two_level [OF rt' root'] c01 by auto
qed

text \<open>C24. Insert, then look up: on every reachable state, an insert that does
  not split (allocates no page) leaves its key in the index. Together with C23
  this separates the inserts that keep their key from the splits that lose keys.\<close>

theorem insert_keeps_key:
  assumes re: "reachable t" and ti: "tree_insert k t = Some t'"
    and same: "nextPageID (bm t') = nextPageID (bm t)"
  shows "k \<in> set (index_keys t')"
  using reachable_shape [OF re]
proof (cases rule: engine_shape_cases)
  case (single n)
  show ?thesis
  proof (cases "numKeys n < int MAX_KEYS")
    case True
    then have "t' = stA (leaf_put k n)" using ti stA_insert_room [OF single(2) True] single(1) by simp
    then show ?thesis
      using index_keys_stA [of "leaf_put k n"] leaf_put_keys [OF single(3,2) True] single(2) by simp
  next
    case False
    then have "t' = stA_split n k" using ti stA_insert_full [OF single(2) False] stA_splitLeaf single(1) by simp
    then show ?thesis using same single(1) by (simp add: stA_split_def stA_def Let_def)
  qed
next
  case two
  then show ?thesis using two_level_room_keys ti same by blast
qed

lemma insert_keeps_key_witness:
  "nextPageID (bm demo7) = nextPageID (bm demo6) \<and> 5 \<in> set (index_keys demo7)"
proof -
  have h: "nextPageID (bm demo7) = nextPageID (bm demo6)" by (simp add: demo6_def demo7_def)
  show ?thesis using insert_keeps_key [OF reachable_run [OF run_demo6] insert5 h] h by simp
qed

end
