(* ===== verification/Trace.thy ===== *)
theory Trace
  imports Allocation
begin

text \<open>
  The console output of the engine. Every \<^verbatim>\<open>cout\<close> of \<^verbatim>\<open>StorageEngine.hpp\<close> and of
  \<^verbatim>\<open>main\<close> is a constructor of \<open>msg\<close>, carrying the values the line prints. For
  each operation that prints, \<open>*_out\<close> computes the lines it prints from the state
  it starts in, in the order of the source, calling the operations of the state
  model for the intermediate states; \<open>findLeaf_tr\<close> and \<open>tree_insert_tr\<close> return the
  state and the lines together. The traced operations change the state exactly as
  the untraced ones do (\<open>run_tr_state\<close>), so the log is an observation added to the
  model, not a second model.
\<close>

datatype msg =
    DiskWrite pid          \<comment> \<open>line 35: \<^verbatim>\<open>[DISK] Writing Page p to database.db...\<close>\<close>
  | DiskRead pid           \<comment> \<open>line 41: \<^verbatim>\<open>[DISK] Reading Page p from disk...\<close>\<close>
  | BufferHit pid          \<comment> \<open>line 67\<close>
  | BufferMiss pid         \<comment> \<open>line 72\<close>
  | Allocating pid         \<comment> \<open>line 84: \<^verbatim>\<open>[SYSTEM] Allocating new Page p\<close>\<close>
  | Evicting pid           \<comment> \<open>line 97: \<^verbatim>\<open>[EVICT] Buffer full. Kicking out Page p\<close>\<close>
  | UserInsert int         \<comment> \<open>line 135: \<^verbatim>\<open>>>> USER COMMAND: INSERT k <<<\<close>\<close>
  | KeyPlaced int pid      \<comment> \<open>line 159: \<^verbatim>\<open>[TREE] Key k placed in Leaf Page p\<close>\<close>
  | SplitStart             \<comment> \<open>line 166\<close>
  | SplitDone pid          \<comment> \<open>line 185: \<^verbatim>\<open>[TREE] Split complete. New Leaf Page p created.\<close>\<close>
  | NewRoot pid            \<comment> \<open>line 200: \<^verbatim>\<open>[TREE] New Root created (Page p).\<close>\<close>
  | Blank                  \<comment> \<open>the empty line a leading \<^verbatim>\<open>\n\<close> prints (line 135, main.cpp line 20)\<close>
  | Banner string          \<comment> \<open>the banner lines of \<^verbatim>\<open>main\<close>\<close>

section \<open>The lines each operation prints\<close>

text \<open>\<^verbatim>\<open>evict\<close> prints only when the list is full; the write of a dirty victim
  prints its line before the seek, whether the stream works or not.\<close>

definition evict_out :: "BufferManager \<Rightarrow> msg list" where
  "evict_out b =
     (if length (lru b) < BUFFER_CAPACITY then []
      else (let fr = pool b ! last (lru b) in
            Evicting (pageID fr) # (if dirty fr then [DiskWrite (pageID fr)] else [])))"

definition fetchPage_out :: "pid \<Rightarrow> BufferManager \<Rightarrow> msg list" where
  "fetchPage_out p b =
     (case pageTable b p of
        Some i \<Rightarrow> [BufferHit p]
      | None \<Rightarrow> BufferMiss p # evict_out b @ [DiskRead p])"

definition allocatePage_out :: "BufferManager \<Rightarrow> msg list" where
  "allocatePage_out b =
     (let p = nextPageID b in Allocating p # fetchPage_out p (b\<lparr>nextPageID := p + 1\<rparr>))"

definition BPlusTree_init_out :: "BufferManager \<Rightarrow> msg list" where
  "BPlusTree_init_out b0 =
     (case allocatePage b0 of (r, b1) \<Rightarrow> allocatePage_out b0 @ fetchPage_out r b1)"

text \<open>The descent, returning the leaf, the manager and the lines of its fetches.\<close>

partial_function (option) findLeaf_tr ::
  "pid \<Rightarrow> int \<Rightarrow> BufferManager \<Rightarrow> (pid \<times> BufferManager \<times> msg list) option"
where
  "findLeaf_tr p key b =
     (case fetchPage p b of (i, b1) \<Rightarrow>
        (if isLeaf (data (pool b1 ! i)) then Some (p, b1, fetchPage_out p b)
         else (case scan_keys (keys (data (pool b1 ! i))) (numKeys (data (pool b1 ! i))) key 0 of
                 None \<Rightarrow> None
               | Some j \<Rightarrow>
                   if j < length (children (data (pool b1 ! i)))
                   then Option.bind (findLeaf_tr (children (data (pool b1 ! i)) ! j) key b1)
                          (\<lambda>(c, b2, ms). Some (c, b2, fetchPage_out p b @ ms))
                   else None)))"

definition insertIntoParent_out :: "pid \<Rightarrow> int \<Rightarrow> pid \<Rightarrow> BPlusTree \<Rightarrow> msg list" where
  "insertIntoParent_out left key right t =
     (if left = rootPage t then
        (case allocatePage (bm t) of (nr, b1) \<Rightarrow>
           allocatePage_out (bm t) @ fetchPage_out nr b1 @ [NewRoot nr])
      else [])"

definition splitLeaf_out :: "pid \<Rightarrow> int \<Rightarrow> BPlusTree \<Rightarrow> msg list" where
  "splitLeaf_out oldp key t =
     SplitStart #
     (case allocatePage (bm t) of (newp, b1) \<Rightarrow>
      case fetchPage oldp b1 of (io, b2) \<Rightarrow>
      case fetchPage newp b2 of (inw, b3) \<Rightarrow>
        (let b9 = split_writes oldp newp io inw key b3
         in allocatePage_out (bm t) @ fetchPage_out oldp b1 @ fetchPage_out newp b2 @ [SplitDone newp] @
            insertIntoParent_out oldp (keys (data (pool b9 ! inw)) ! 0) newp (t\<lparr>bm := b9\<rparr>)))"

definition insertIntoLeaf_out :: "pid \<Rightarrow> int \<Rightarrow> BPlusTree \<Rightarrow> msg list" where
  "insertIntoLeaf_out p key t =
     (case fetchPage p (bm t) of (i, b1) \<Rightarrow>
        fetchPage_out p (bm t) @
        (if numKeys (data (pool b1 ! i)) < int MAX_KEYS then [KeyPlaced key p]
         else splitLeaf_out p key (t\<lparr>bm := b1\<rparr>)))"

definition tree_insert_tr :: "int \<Rightarrow> BPlusTree \<Rightarrow> (BPlusTree \<times> msg list) option" where
  "tree_insert_tr key t =
     (case findLeaf_tr (rootPage t) key (bm t) of
        None \<Rightarrow> None
      | Some (leaf, b1, ms) \<Rightarrow>
          Some (insertIntoLeaf leaf key (t\<lparr>bm := b1\<rparr>),
                Blank # UserInsert key # ms @ insertIntoLeaf_out leaf key (t\<lparr>bm := b1\<rparr>)))"

section \<open>The driver\<close>

definition banner_start :: "msg list" where
  "banner_start =
     [Banner ''==========================================='',
      Banner ''   MINI-DBMS STORAGE ENGINE STARTING...    '',
      Banner ''==========================================='']"

text \<open>The closing banner starts with an empty line (the \<^verbatim>\<open>\n\<close> of line 20).\<close>

definition banner_end :: "msg list" where
  "banner_end =
     [Blank, Banner ''==========================================='',
      Banner ''   DEMO COMPLETE: CHECK database.db FILE   '',
      Banner ''==========================================='']"

fun run_tr :: "int list \<Rightarrow> BPlusTree \<Rightarrow> (BPlusTree \<times> msg list) option" where
  "run_tr [] t = Some (t, [])"
| "run_tr (k # ks) t =
     (case tree_insert_tr k t of
        None \<Rightarrow> None
      | Some (t1, ms) \<Rightarrow> (case run_tr ks t1 of None \<Rightarrow> None | Some (t2, ms2) \<Rightarrow> Some (t2, ms @ ms2)))"

text \<open>What \<^verbatim>\<open>main\<close> prints: the banner, the constructor's lines, the inserts' lines,
  the closing banner.\<close>

definition main_out :: "int list \<Rightarrow> msg list option" where
  "main_out ks =
     map_option (\<lambda>(t, ms). banner_start @ BPlusTree_init_out (BufferManager_init StorageManager_init) @ ms @
                            banner_end)
       (run_tr ks engine_init)"

section \<open>The traced descent follows the untraced one\<close>

lemma findLeaf_tr_sound:
  assumes fl: "findLeaf_tr p k b = Some (c, b', ms)"
  shows "findLeaf p k b = Some (c, b')"
proof -
  have "findLeaf p k b = Some (fst (c, b', ms), fst (snd (c, b', ms)))"
    apply (rule findLeaf_tr.raw_induct [where P = "\<lambda>p k b r. findLeaf p k b = Some (fst r, fst (snd r))",
          OF _ fl])
    subgoal premises prems for f p k b r
    proof -
      obtain i b1 where fp: "fetchPage p b = (i, b1)" by (cases "fetchPage p b")
      show ?thesis
        using prems fp by (subst findLeaf.simps) (auto simp: bind_eq_Some_conv split: if_splits option.splits)
    qed
    done
  then show ?thesis by simp
qed

lemma findLeaf_tr_complete:
  assumes fl: "findLeaf p k b = Some (c, b')"
  shows "\<exists>ms. findLeaf_tr p k b = Some (c, b', ms)"
proof -
  have "\<exists>ms. findLeaf_tr p k b = Some (fst (c, b'), snd (c, b'), ms)"
    apply (rule findLeaf.raw_induct [where P = "\<lambda>p k b r. \<exists>ms. findLeaf_tr p k b = Some (fst r, snd r, ms)",
          OF _ fl])
    subgoal premises prems for f p k b r
    proof -
      obtain i b1 where fp: "fetchPage p b = (i, b1)" by (cases "fetchPage p b")
      show ?thesis
        using prems fp by (cases r, subst findLeaf_tr.simps) (fastforce split: if_splits option.splits)
    qed
    done
  then show ?thesis by simp
qed

lemma findLeaf_tr_state:
  "map_option (\<lambda>(c, b', ms). (c, b')) (findLeaf_tr p k b) = findLeaf p k b"
proof (cases "findLeaf_tr p k b")
  case None
  then show ?thesis
    using findLeaf_tr_complete [of p k b] by (cases "findLeaf p k b") auto
next
  case (Some r)
  then show ?thesis using findLeaf_tr_sound [of p k b] by (cases r) auto
qed

lemma tree_insert_tr_state: "map_option fst (tree_insert_tr k t) = tree_insert k t"
  using findLeaf_tr_state [of "rootPage t" k "bm t"]
  by (cases "findLeaf_tr (rootPage t) k (bm t)")
     (auto simp: tree_insert_tr_def tree_insert_def split: option.splits)

lemma run_tr_state: "map_option fst (run_tr ks t) = run_inserts ks t"
proof (induction ks arbitrary: t)
  case Nil
  then show ?case by simp
next
  case (Cons k ks)
  show ?case
  proof (cases "tree_insert_tr k t")
    case None
    then show ?thesis using tree_insert_tr_state [of k t] by simp
  next
    case (Some r)
    obtain t1 ms where r: "r = (t1, ms)" by (cases r)
    have "tree_insert k t = Some t1" using tree_insert_tr_state [of k t] Some r by simp
    then show ?thesis using Some r Cons.IH [of t1] by (auto split: option.splits)
  qed
qed

section \<open>Allocation as the log reports it\<close>

text \<open>The page ids the log announces as allocated, in order.\<close>

primrec alloc_ids :: "msg list \<Rightarrow> pid list" where
  "alloc_ids [] = []"
| "alloc_ids (m # ms) = (case m of Allocating p \<Rightarrow> p # alloc_ids ms | _ \<Rightarrow> alloc_ids ms)"

lemma alloc_ids_append [simp]: "alloc_ids (xs @ ys) = alloc_ids xs @ alloc_ids ys"
  by (induction xs) (auto split: msg.split)

lemma alloc_ids_fetchPage_out [simp]: "alloc_ids (fetchPage_out p b) = []"
  by (simp add: fetchPage_out_def evict_out_def Let_def split: option.split)

lemma alloc_ids_allocatePage_out [simp]: "alloc_ids (allocatePage_out b) = [nextPageID b]"
  by (simp add: allocatePage_out_def Let_def)

lemma insertIntoParent_alloc:
  "alloc_ids (insertIntoParent_out l key r t) =
     [nextPageID (bm t)..nextPageID (bm (insertIntoParent l key r t)) - 1]"
proof (cases "l = rootPage t")
  case True
  obtain nr b1 where a: "allocatePage (bm t) = (nr, b1)" by (cases "allocatePage (bm t)")
  obtain i b2 where f: "fetchPage nr b1 = (i, b2)" by (cases "fetchPage nr b1")
  have "nextPageID b2 = nextPageID (bm t) + 1"
    using allocatePage_next [OF a] fetchPage_nextPageID [OF f] by simp
  then show ?thesis using True a f by (simp add: insertIntoParent_def insertIntoParent_out_def)
qed (simp add: insertIntoParent_def insertIntoParent_out_def)

lemma upto_Cons_next: "i \<le> j \<Longrightarrow> i # [i + 1..j] = [i..j]"
  by (simp add: upto_rec1 [of i j])

lemma splitLeaf_alloc:
  "alloc_ids (splitLeaf_out oldp key t) = [nextPageID (bm t)..nextPageID (bm (splitLeaf oldp key t)) - 1]"
proof -
  obtain p b1 where a: "allocatePage (bm t) = (p, b1)" by (cases "allocatePage (bm t)")
  obtain io b2 where f1: "fetchPage oldp b1 = (io, b2)" by (cases "fetchPage oldp b1")
  obtain inw b3 where f2: "fetchPage p b2 = (inw, b3)" by (cases "fetchPage p b2")
  let ?t9 = "t\<lparr>bm := split_writes oldp p io inw key b3\<rparr>"
  let ?k = "keys (data (pool (bm ?t9) ! inw)) ! 0"
  have n9: "nextPageID (bm ?t9) = nextPageID (bm t) + 1"
    using allocatePage_next [OF a] fetchPage_nextPageID [OF f1] fetchPage_nextPageID [OF f2] by simp
  have eq: "splitLeaf oldp key t = insertIntoParent oldp ?k p ?t9"
    using a f1 f2 by (simp add: splitLeaf_def Let_def)
  have out: "alloc_ids (splitLeaf_out oldp key t) = nextPageID (bm t) # alloc_ids (insertIntoParent_out oldp ?k p ?t9)"
    using a f1 f2 by (simp add: splitLeaf_out_def Let_def)
  have "nextPageID (bm ?t9) \<le> nextPageID (bm (insertIntoParent oldp ?k p ?t9))"
    using insertIntoParent_next [of ?t9 oldp ?k p] by simp
  then show ?thesis
    unfolding out eq insertIntoParent_alloc n9 using upto_Cons_next by simp
qed

lemma insertIntoLeaf_alloc:
  "alloc_ids (insertIntoLeaf_out c key t) = [nextPageID (bm t)..nextPageID (bm (insertIntoLeaf c key t)) - 1]"
proof -
  obtain i b1 where f: "fetchPage c (bm t) = (i, b1)" by (cases "fetchPage c (bm t)")
  have n1: "nextPageID b1 = nextPageID (bm t)" using fetchPage_nextPageID [OF f] .
  show ?thesis
  proof (cases "numKeys (data (pool b1 ! i)) < int MAX_KEYS")
    case True
    then show ?thesis using f n1 by (simp add: insertIntoLeaf_def insertIntoLeaf_out_def)
  next
    case False
    then show ?thesis using f n1 splitLeaf_alloc [of c key "t\<lparr>bm := b1\<rparr>"]
      by (simp add: insertIntoLeaf_def insertIntoLeaf_out_def)
  qed
qed

lemma findLeaf_tr_alloc:
  assumes "findLeaf_tr p k b = Some (c, b', ms)"
  shows "alloc_ids ms = []"
proof -
  have "alloc_ids (snd (snd (c, b', ms))) = []"
    apply (rule findLeaf_tr.raw_induct [where P = "\<lambda>p k b r. alloc_ids (snd (snd r)) = []", OF _ assms])
    subgoal premises prems for f p k b r
    proof -
      obtain i b1 where fp: "fetchPage p b = (i, b1)" by (cases "fetchPage p b")
      show ?thesis using prems fp by (auto simp: bind_eq_Some_conv split: if_splits option.splits)
    qed
    done
  then show ?thesis by simp
qed

lemma tree_insert_tr_alloc:
  assumes "tree_insert_tr k t = Some (t', ms)"
  shows "alloc_ids ms = [nextPageID (bm t)..nextPageID (bm t') - 1]"
proof -
  obtain c b1 ms1 where fl: "findLeaf_tr (rootPage t) k (bm t) = Some (c, b1, ms1)"
    and t': "t' = insertIntoLeaf c k (t\<lparr>bm := b1\<rparr>)"
    and ms: "ms = Blank # UserInsert k # ms1 @ insertIntoLeaf_out c k (t\<lparr>bm := b1\<rparr>)"
    using assms by (auto simp: tree_insert_tr_def split: option.splits)
  have "nextPageID b1 = nextPageID (bm t)"
    using findLeaf_nextPageID [OF findLeaf_tr_sound [OF fl]] .
  then show ?thesis
    using insertIntoLeaf_alloc [of c k "t\<lparr>bm := b1\<rparr>"] findLeaf_tr_alloc [OF fl] ms t' by simp
qed

lemma upto_append_adj:
  assumes "a \<le> b" and "b \<le> c"
  shows "[a..b - 1] @ [b..c - 1] = [a..c - 1]"
proof (cases "b = c")
  case False
  then show ?thesis using assms upto_split1 [of a b "c - 1"] by simp
qed simp

lemma run_tr_alloc:
  "run_tr ks t = Some (t', ms) \<Longrightarrow>
   alloc_ids ms = [nextPageID (bm t)..nextPageID (bm t') - 1] \<and> nextPageID (bm t) \<le> nextPageID (bm t')"
proof (induction ks arbitrary: t ms)
  case Nil
  then show ?case by simp
next
  case (Cons k ks)
  obtain t1 ms1 ms2 where ti: "tree_insert_tr k t = Some (t1, ms1)" and r: "run_tr ks t1 = Some (t', ms2)"
    and ms: "ms = ms1 @ ms2"
    using Cons.prems by (auto split: option.splits)
  have le: "nextPageID (bm t) \<le> nextPageID (bm t1)"
    using tree_insert_next [of k t t1] tree_insert_tr_state [of k t] ti by simp
  show ?case
    using tree_insert_tr_alloc [OF ti] Cons.IH [OF r] le ms upto_append_adj by simp
qed

lemma init_out: "BPlusTree_init_out (BufferManager_init StorageManager_init) =
   [Allocating 0, BufferMiss 0, DiskRead 0, BufferHit 0]"
  by (simp add: BPlusTree_init_out_def allocatePage_out_def allocatePage_def fetchPage_out_def
      fetchPage_def evict_out_def evict_def readDisk_def BufferManager_init_def StorageManager_init_def
      BUFFER_CAPACITY_def touch_def write_frame_def markDirty_def Let_def)

lemma banners_alloc [simp]: "alloc_ids banner_start = []" "alloc_ids banner_end = []"
  by (simp_all add: banner_start_def banner_end_def)

text \<open>C22. The log announces every page the program allocates, exactly once and in
  order: after any run of \<^verbatim>\<open>main\<close>, the \<^verbatim>\<open>[SYSTEM] Allocating new Page\<close> lines
  name the pages \<open>0, 1, \<dots>, nextPageID - 1\<close> of the final state, and no others.\<close>

theorem main_log_announces_allocations:
  assumes "main_out ks = Some out"
  shows "\<exists>t. run_inserts ks engine_init = Some t \<and> alloc_ids out = [0..nextPageID (bm t) - 1]"
proof -
  obtain t ms where r: "run_tr ks engine_init = Some (t, ms)"
    and out: "out = banner_start @ BPlusTree_init_out (BufferManager_init StorageManager_init) @ ms @ banner_end"
    using assms by (auto simp: main_out_def)
  have "run_inserts ks engine_init = Some t" using run_tr_state [of ks engine_init] r by simp
  moreover have "alloc_ids out = [0..nextPageID (bm t) - 1]"
    using run_tr_alloc [OF r] engine_init_nextPageID upto_append_adj [of 0 1 "nextPageID (bm t)"]
    by (simp add: out init_out)
  ultimately show ?thesis by blast
qed

section \<open>The log of the demonstration\<close>

lemma stA_insert_tr_room:
  assumes "isLeaf n" and "numKeys n < int MAX_KEYS"
  shows "tree_insert_tr k (stA n) = Some (stA (leaf_put k n), [Blank, UserInsert k, BufferHit 0, BufferHit 0, KeyPlaced k 0])"
  using assms
  by (simp add: tree_insert_tr_def stA_def findLeaf_tr.simps [of 0] fetchPage_def touch_def
      insertIntoLeaf_def insertIntoLeaf_out_def fetchPage_out_def markDirty_def write_frame_def)

lemma stA_split_out:
  "splitLeaf_out 0 k (stA n) =
     [SplitStart, Allocating 1, BufferMiss 1, DiskRead 1, BufferHit 0, BufferHit 1, SplitDone 1,
      Allocating 2, BufferMiss 2, DiskRead 2, BufferHit 2, NewRoot 2]"
proof -
  have upd: "(stA n)\<lparr>bm := b\<rparr> = \<lparr>bm = b, rootPage = 0\<rparr>" for b by (simp add: stA_def)
  have a: "allocatePage_out (bm (stA n)) = [Allocating 1, BufferMiss 1, DiskRead 1]"
    by (simp add: stA_def allocatePage_out_def fetchPage_out_def evict_out_def BUFFER_CAPACITY_def)
  show ?thesis
    unfolding splitLeaf_out_def stA_alloc prod.case stA_split_fetch0 stA_split_fetch1 stA_split_writes Let_def upd a
    by (simp add: insertIntoParent_out_def allocatePage_out_def allocatePage_def fetchPage_out_def fetchPage_def
        evict_out_def evict_def readDisk_def BUFFER_CAPACITY_def touch_def write_frame_def markDirty_def)
qed

lemma stA_insert_tr_full:
  assumes "isLeaf n" and "\<not> numKeys n < int MAX_KEYS"
  shows "tree_insert_tr k (stA n) = Some (stA_split n k,
     [Blank, UserInsert k, BufferHit 0, BufferHit 0, SplitStart, Allocating 1, BufferMiss 1, DiskRead 1,
      BufferHit 0, BufferHit 1, SplitDone 1, Allocating 2, BufferMiss 2, DiskRead 2, BufferHit 2, NewRoot 2])"
proof -
  have f: "fetchPage 0 (bm (stA n)) = (0, bm (stA n))" by (simp add: stA_def fetchPage_def touch_def)
  have fl: "findLeaf_tr 0 k (bm (stA n)) = Some (0, bm (stA n), [BufferHit 0])"
    using assms(1) f by (simp add: findLeaf_tr.simps [of 0] fetchPage_out_def stA_def)
  have io: "insertIntoLeaf_out 0 k (stA n) = BufferHit 0 # splitLeaf_out 0 k (stA n)"
    using assms f by (simp add: insertIntoLeaf_out_def fetchPage_out_def stA_def)
  have rt: "rootPage (stA n) = 0" by (simp add: stA_def)
  have ti: "tree_insert_tr k (stA n) =
      Some (insertIntoLeaf 0 k (stA n), Blank # UserInsert k # BufferHit 0 # insertIntoLeaf_out 0 k (stA n))"
    using fl by (simp add: tree_insert_tr_def rt)
  have "insertIntoLeaf 0 k (stA n) = stA_split n k"
    using ti tree_insert_tr_state [of k "stA n"] stA_insert_full [OF assms, of k] stA_splitLeaf by simp
  then show ?thesis using ti io by (simp add: stA_split_out)
qed

lemma tr_parts: "map_option fst x = Some a \<Longrightarrow> map_option snd x = Some b \<Longrightarrow> x = Some (a, b)"
  by (cases x) auto

lemma run_tr_append:
  "run_tr (xs @ ys) t =
     (case run_tr xs t of None \<Rightarrow> None
      | Some (t1, ms) \<Rightarrow> map_option (\<lambda>(t2, ms2). (t2, ms @ ms2)) (run_tr ys t1))"
  by (induction xs arbitrary: t) (auto simp: option.map_id split: option.split)

lemma tr_first_leaf:
  "run_tr [10, 20, 30] engine_init = Some (stA (leaf_img 3 [10, 20, 30] (-1)),
     [Blank, UserInsert 10, BufferHit 0, BufferHit 0, KeyPlaced 10 0,
      Blank, UserInsert 20, BufferHit 0, BufferHit 0, KeyPlaced 20 0,
      Blank, UserInsert 30, BufferHit 0, BufferHit 0, KeyPlaced 30 0])"
  by (simp add: engine_init_stA stA_insert_tr_room leaf_put_def shift_insert.simps zero_node_eq
      MAX_KEYS_def leaf_img_def)

lemma tr_insert50:
  "tree_insert_tr 50 (stA_split (leaf_img 3 [10, 20, 30] (-1)) 40) =
     Some (demo5, [Blank, UserInsert 50, BufferHit 2, BufferHit 1, BufferHit 1, KeyPlaced 50 1])"
proof (rule tr_parts)
  show "map_option fst (tree_insert_tr 50 (stA_split (leaf_img 3 [10, 20, 30] (-1)) 40)) = Some demo5"
    using tree_insert_tr_state insert50 by simp
  show "map_option snd (tree_insert_tr 50 (stA_split (leaf_img 3 [10, 20, 30] (-1)) 40)) =
      Some [Blank, UserInsert 50, BufferHit 2, BufferHit 1, BufferHit 1, KeyPlaced 50 1]"
    by (simp add: tree_insert_tr_def stA_split_def split_tmp_def Let_def copy_keys_2 scenario_defs
        findLeaf_tr.simps insertIntoLeaf_out_def fetchPage_out_def)
qed

lemma tr_demo:
  "run_tr demo_keys engine_init = Some (demo5,
     [Blank, UserInsert 10, BufferHit 0, BufferHit 0, KeyPlaced 10 0,
      Blank, UserInsert 20, BufferHit 0, BufferHit 0, KeyPlaced 20 0,
      Blank, UserInsert 30, BufferHit 0, BufferHit 0, KeyPlaced 30 0,
      Blank, UserInsert 40, BufferHit 0, BufferHit 0, SplitStart, Allocating 1, BufferMiss 1, DiskRead 1,
      BufferHit 0, BufferHit 1, SplitDone 1, Allocating 2, BufferMiss 2, DiskRead 2, BufferHit 2, NewRoot 2,
      Blank, UserInsert 50, BufferHit 2, BufferHit 1, BufferHit 1, KeyPlaced 50 1])"
proof -
  have "tree_insert_tr 40 (stA (leaf_img 3 [10, 20, 30] (-1))) = Some (stA_split (leaf_img 3 [10, 20, 30] (-1)) 40,
     [Blank, UserInsert 40, BufferHit 0, BufferHit 0, SplitStart, Allocating 1, BufferMiss 1, DiskRead 1,
      BufferHit 0, BufferHit 1, SplitDone 1, Allocating 2, BufferMiss 2, DiskRead 2, BufferHit 2, NewRoot 2])"
    by (rule stA_insert_tr_full) (simp_all add: leaf_img_def MAX_KEYS_def)
  then show ?thesis
    using run_tr_append [of "[10, 20, 30]" "[40, 50]" engine_init] tr_first_leaf tr_insert50
    by (simp add: demo_keys_def)
qed

lemma main_log_announces_allocations_witness:
  "\<exists>t. run_inserts demo_keys engine_init = Some t \<and>
       alloc_ids (the (main_out demo_keys)) = [0..nextPageID (bm t) - 1]"
proof -
  have "main_out demo_keys = Some (the (main_out demo_keys))" by (simp add: main_out_def tr_demo)
  then show ?thesis by (rule main_log_announces_allocations)
qed

end
