(* ===== verification/Spec2Isabelle.thy ===== *)
theory Spec2Isabelle
  imports Refinement Loss Trace
begin

text \<open>
  A verification development for the Mini-DBMS storage engine: the three classes of
  \<^verbatim>\<open>src/include/StorageEngine.hpp\<close> and the driver \<^verbatim>\<open>src/src/main.cpp\<close>, as a
  shallow embedding in HOL. Every member function is a definition that passes the
  state explicitly; every definition computes, so the scenarios below are evaluated
  by \<open>simp\<close>.

  \<^bold>\<open>The program.\<close> A \<^verbatim>\<open>StorageManager\<close> reads and writes 4096-byte blocks of one file
  through an \<^verbatim>\<open>fstream\<close>. A \<^verbatim>\<open>BufferManager\<close> keeps three frames over it, with a
  page table, an LRU list and an allocation counter; it is the only way to the
  pages. A \<^verbatim>\<open>BPlusTree\<close> overlays \<^verbatim>\<open>struct BPlusNode\<close> on the page buffers
  \<^verbatim>\<open>fetchPage\<close> returns and implements insertion: descent (\<^verbatim>\<open>findLeaf\<close>), in-place
  insertion, leaf split and promotion into a new root. \<^verbatim>\<open>main\<close> builds the three
  on a truncated file and inserts 10, 20, 30, 40, 50.

  \<^bold>\<open>Theories.\<close>
  \<^item> \<open>Prelude\<close>: the constants \<open>PAGE_SIZE\<close>, \<open>BUFFER_CAPACITY\<close>, \<open>MAX_KEYS\<close>
    (lines 15--17), the names \<open>pid\<close> and \<open>frame_idx\<close>, list and map lemmas.
  \<^item> \<open>Node\<close>: \<open>BPlusNode\<close> (lines 112--119) as a record; a page's bytes are its node
    view, \<open>zero_node\<close> the view of a zeroed page; \<open>node_wf\<close> the node invariant.
  \<^item> \<open>Storage\<close>: \<open>StorageManager\<close> (lines 21--45) as the file's blocks and the stream's
    failure flag; \<open>writeDisk\<close>, \<open>readDisk\<close> follow the C++ stream semantics (a read
    past the end sets \<^verbatim>\<open>failbit\<close> and keeps the buffer; a failed stream ignores seeks,
    reads and writes); \<open>page_offset\<close> is \<^verbatim>\<open>pageID * PAGE_SIZE\<close> at 32 bits.
  \<^item> \<open>Buffer\<close>: \<open>Frame\<close>, \<open>BufferManager\<close> (lines 49--108); \<open>fetchPage\<close>,
    \<open>allocatePage\<close>, \<open>markDirty\<close>, \<open>evict\<close>, \<open>touch\<close>, and \<open>write_frame\<close> for a store
    through a returned pointer. Invariant \<open>bm_inv\<close>; an abstract LRU cache
    (\<open>lru_fetch\<close> over \<open>resident_order\<close>) that \<open>fetchPage\<close> refines.
  \<^item> \<open>BPlusTree\<close>: \<open>BPlusTree\<close> (lines 121--203); the three loops as recursive
    functions (\<open>scan_keys\<close>, \<open>shift_insert\<close>, \<open>copy_keys\<close>), \<open>findLeaf\<close> as a
    \<^theory_text>\<open>partial_function (option)\<close>, \<open>insertIntoLeaf\<close>, \<open>splitLeaf\<close> (with its
    stores \<open>split_writes\<close> and \<open>tempKeys\<close> as \<open>split_tmp\<close>), \<open>insertIntoParent\<close>,
    \<open>tree_insert\<close> for \<^verbatim>\<open>insert\<close>.
  \<^item> \<open>Engine\<close>: the engine \<^verbatim>\<open>main\<close> constructs (\<open>engine_init\<close>, main.cpp lines 9--11),
    a run of inserts (\<open>run_inserts\<close>, lines 14--18), the reachable states
    (\<^theory_text>\<open>inductive\<close> \<open>reachable\<close>) and their two shapes: \<open>stA n\<close>, one leaf, and
    \<open>two_level\<close>, a root (page 2) over pages 0 and 1 on a full cache.
  \<^item> \<open>Scenario\<close>: \<open>index_keys\<close>, the keys the index reaches, and the runs of the
    demonstration and of three further inserts, computed insert by insert.
  \<^item> \<open>Refinement\<close>: the abstract contract of an index, a sorted list of the inserted
    keys (\<open>spec_run\<close>), and the refinement of it by the engine for runs of up to
    five inserts (C17).
  \<^item> \<open>Allocation\<close>: how \<^verbatim>\<open>nextPageID\<close> moves under each operation (only
    \<^verbatim>\<open>allocatePage\<close> advances it, an insert at most twice) and the bounds this gives
    on page ids and on their byte offsets over a run (C19, C20).
  \<^item> \<open>Keys\<close>: the invariant \<open>leaf_keys_within\<close> (every leaf image in a frame holds
    inserted keys only), preserved by every insert on either shape, and the
    theorem that the index never shows a key that was not inserted (C21).
  \<^item> \<open>Loss\<close>: on every reachable two-level state, an insert that splits a leaf
    below the root leaves an index of exactly two keys (C23), and an insert that
    does not split leaves its key in the index (C24).
  \<^item> \<open>Trace\<close>: the console output. Each \<^verbatim>\<open>cout\<close> is a constructor of \<open>msg\<close>; each
    printing operation has an \<open>*_out\<close> function (or, for the descent and the insert,
    a traced version \<open>findLeaf_tr\<close>, \<open>tree_insert_tr\<close>) computing its lines in source
    order; \<open>run_tr\<close> and \<open>main_out\<close> give the lines of a run and of \<^verbatim>\<open>main\<close>
    (main.cpp lines 4--24). One \<open>msg\<close> is one printed line; the empty line a
    leading \<^verbatim>\<open>\n\<close> prints (line 135 and main.cpp line 20) is \<open>Blank\<close>. The
    traced model goes through exactly the states of the untraced one, and the log
    of every run names every allocated page once, in order (C22).
  \<^item> this theory: the properties of the whole engine.

  \<^bold>\<open>What is proved.\<close> For the engine (C1--C6, this theory): every reachable state
  has one of the two shapes and keeps the cache invariant; every insert returns and
  \<^verbatim>\<open>findLeaf\<close> ends at the root or one of its two children; resident nodes keep
  their key counts within \<open>MAX_KEYS\<close> and their keys sorted; page ids are never
  reused. The constructor's first allocation reads page 0 of the empty file, so the
  stream fails for good and nothing is ever written (C3). For the disk layer
  (C7--C9): the page round trip on a good stream, the failure of a read past the
  end, and the 32-bit overflow of the byte offset, which makes every page from
  \<open>2\<^sup>1\<^sup>9\<close> to \<open>2\<^sup>2\<^sup>0 - 1\<close> unreadable and unwritable and folds page \<open>p + 2\<^sup>2\<^sup>0\<close> onto
  page \<open>p\<close>. For the buffer manager (C10--C13, C18): its invariant under
  \<^verbatim>\<open>fetchPage\<close>, the fresh page \<^verbatim>\<open>allocatePage\<close> hands out, the refinement of
  the textbook LRU cache by \<^verbatim>\<open>fetchPage\<close> and LRU's eviction order, and, once the
  stream has failed, that a miss re-uses the least recent frame with its stale
  bytes. For the nodes (C14--C16): routing in \<^verbatim>\<open>findLeaf\<close>, the shifting loop of
  \<^verbatim>\<open>insertIntoLeaf\<close> as insertion into a sorted list, and the split as a
  partition of the merged keys. Against the abstract index, every run of at most
  five inserts implements a sorted list of the inserted keys exactly (C17); a run
  of \<open>n\<close> inserts uses at most \<open>2n\<close> page ids (C19), so the overflow of C9 cannot
  be reached by fewer than \<open>2\<^sup>1\<^sup>8\<close> inserts: every resident page's offset is
  then \<open>pageID * 4096\<close> exactly (C20). Whatever the index loses, it never
  invents a key (C21). The console log names every allocated page once and in
  order (C22). On every reachable two-level state a split below the root
  leaves the index with two keys, as \<^verbatim>\<open>insertIntoParent\<close> links no new page and the
  evicted sibling is never written (C23), while an insert without a split always
  keeps its key (C24).

  \<^bold>\<open>Loops and partiality.\<close> The three C++ loops are total functions with measure
  termination. \<^verbatim>\<open>findLeaf\<close> follows page ids read from the pages, so it is a
  \<^theory_text>\<open>partial_function\<close> into \<open>option\<close>; that it returns on every reachable state
  is a theorem (C2, C4), proved from the two shapes: the root is touched first
  on every insert and so is never the victim of the eviction that follows.

  \<^bold>\<open>Not modelled.\<close> Console lines are modelled one \<open>msg\<close> per line, by their
  content (the message and the numbers it prints), not as characters: the decimal
  rendering of the numbers and the file name in the write message (always
  \<^verbatim>\<open>database.db\<close>) are left out. The counter \<^verbatim>\<open>nextPageID\<close> is an unbounded
  \<open>int\<close>: the C++ \<^verbatim>\<open>int\<close> increment of line 83 overflows after \<open>2\<^sup>3\<^sup>1\<close>
  allocations, far beyond the \<open>2\<^sup>1\<^sup>9\<close> at which the byte offset already wraps
  (C9), which is modelled at its width. The stream is
  assumed to open: the fallback branch of the constructor (lines 28--32) ends in
  the same state, an empty file and a good stream, and open failure is outside
  what the model's state records. Page contents are the node view rather than
  4096 raw bytes: the program stores nothing but node fields and zero pages. The
  file name, \<^verbatim>\<open>flush\<close> and the OS are not modelled (a write is the new file
  contents).
\<close>

section \<open>Properties of the whole engine\<close>

text \<open>C1. The invariant of the engine: every state that \<^verbatim>\<open>main\<close>'s construction and
  any sequence of inserts can reach is a single leaf or a two-level tree whose
  resident leaves are well formed (\<open>engine_shape\<close>), and the buffer manager's page
  table, recency list and frames agree (\<open>bm_inv\<close>).\<close>

theorem engine_invariant:
  assumes "reachable t"
  shows "engine_shape t \<and> bm_inv (bm t)"
  using reachable_shape [OF assms] engine_shape_inv by blast

lemma engine_invariant_witness: "engine_shape demo8 \<and> bm_inv (bm demo8)"
  using engine_invariant [OF reachable_run [OF run_demo8]] .

text \<open>C2. Every insert on a reachable state returns (the descent of \<^verbatim>\<open>findLeaf\<close>
  ends and no array is read out of bounds), and its result is reachable again.\<close>

theorem insert_returns:
  assumes "reachable t"
  shows "\<exists>t'. tree_insert k t = Some t' \<and> reachable t'"
proof -
  obtain t' where "tree_insert k t = Some t'"
    using engine_shape_step [OF reachable_shape [OF assms]] by blast
  then show ?thesis using reachable.step [OF assms] by blast
qed

lemma insert_returns_witness: "\<exists>t'. tree_insert 7 demo8 = Some t' \<and> reachable t'"
  using insert_returns [OF reachable_run [OF run_demo8]] .

text \<open>C3. Nothing is ever written to the database file: in every reachable state the
  stream has failed and the file is empty. The constructor's first allocation reads
  page 0 of the empty file, which sets \<^verbatim>\<open>failbit\<close>, and every later seek, read and
  write is then a no-op.\<close>

theorem nothing_persisted:
  assumes "reachable t"
  shows "failed (sm (bm t)) \<and> blocks (sm (bm t)) = []"
  using engine_shape_disk [OF reachable_shape [OF assms]] .

lemma nothing_persisted_witness: "failed (sm (bm demo8)) \<and> blocks (sm (bm demo8)) = []"
  using nothing_persisted [OF reachable_run [OF run_demo8]] .

text \<open>C4. \<^verbatim>\<open>findLeaf\<close> terminates: from the root of a reachable state the descent
  returns a leaf page, the root itself or one of its two children.\<close>

theorem findLeaf_terminates:
  assumes "reachable t"
  shows "\<exists>c b'. findLeaf (rootPage t) k (bm t) = Some (c, b') \<and> (c = rootPage t \<or> c = 0 \<or> c = 1)"
  using engine_shape_findLeaf [OF reachable_shape [OF assms]] .

lemma findLeaf_terminates_witness:
  "\<exists>c b'. findLeaf (rootPage demo8) 42 (bm demo8) = Some (c, b') \<and> (c = rootPage demo8 \<or> c = 0 \<or> c = 1)"
  using findLeaf_terminates [OF reachable_run [OF run_demo8]] .

text \<open>C5. Key counts stay within the node's arrays and keys stay sorted: every
  resident node has between 0 and \<open>MAX_KEYS\<close> keys, in ascending order.\<close>

theorem resident_nodes_bounded:
  assumes "reachable t" and "i \<in> set (lru (bm t))"
  shows "0 \<le> numKeys (data (pool (bm t) ! i)) \<and> numKeys (data (pool (bm t) ! i)) \<le> int MAX_KEYS \<and>
         sorted (node_keys (data (pool (bm t) ! i)))"
  using engine_shape_resident [OF reachable_shape [OF assms(1)] assms(2)] by (simp add: node_wf_def)

lemma resident_nodes_bounded_witness:
  "0 \<le> numKeys (data (pool (bm demo8) ! 1)) \<and> numKeys (data (pool (bm demo8) ! 1)) \<le> int MAX_KEYS \<and>
   sorted (node_keys (data (pool (bm demo8) ! 1)))"
  using resident_nodes_bounded [OF reachable_run [OF run_demo8], of 1] by (simp add: demo8_def)

text \<open>C6. Page ids are never reused: every resident page id was allocated before
  (it lies in \<open>[0, nextPageID)\<close>) and the next id is not resident, so
  \<^verbatim>\<open>allocatePage\<close> always hands out a page the cache does not hold.\<close>

theorem page_ids_fresh:
  assumes "reachable t" and "i \<in> set (lru (bm t))"
  shows "0 \<le> pageID (pool (bm t) ! i) \<and> pageID (pool (bm t) ! i) < nextPageID (bm t) \<and>
         pageTable (bm t) (nextPageID (bm t)) = None"
  using engine_shape_resident [OF reachable_shape [OF assms(1)] assms(2)]
    engine_shape_fresh [OF reachable_shape [OF assms(1)]] by simp

lemma page_ids_fresh_witness:
  "0 \<le> pageID (pool (bm demo8) ! 2) \<and> pageID (pool (bm demo8) ! 2) < nextPageID (bm demo8) \<and>
   pageTable (bm demo8) (nextPageID (bm demo8)) = None"
  using page_ids_fresh [OF reachable_run [OF run_demo8], of 2] by (simp add: demo8_def)

end
